theory Spec2Isabelle
  imports Complex_Main
begin

section \<open>Factor-graph nodes of Node.py\<close>

text \<open>
  The objects of Node.py live in a store: a reference is an address, and a node's
  neighbour list holds references, so that two nodes may name each other (and a node may
  name itself). Python compares nodes by identity, which is equality of references here.

  Message values are the numbers Python and numpy compute with: Python integers and
  floats, numpy int64 and binary64 scalars. Their arithmetic belongs to the interpreter
  and to numpy, not to Node.py, and it is neither exact nor lawful (it rounds, wraps,
  overflows to infinity, and has nan). So the values are a type parameter \<open>'v\<close> and
  every operation Node.py uses on them is a field of a record that the functions take as
  their first argument. Nothing is assumed about these operations.
\<close>

type_synonym ref = nat

datatype error = ValueError | IndexError | AttributeError

datatype 'a outcome = Done 'a | Raised error 'a

text \<open>An exception leaves the objects as they were mutated so far: \<open>Raised\<close> carries that state.\<close>

fun state_of :: "'a outcome \<Rightarrow> 'a" where
  "state_of (Done s) = s"
| "state_of (Raised e s) = s"

fun is_raised :: "'a outcome \<Rightarrow> bool" where
  "is_raised (Done s) = False"
| "is_raised (Raised e s) = True"

text \<open>
  The operations on values: the literals \<open>0\<close> and \<open>1\<close>, the constant
  \<open>10 ** (-4)\<close>, the operators \<open>+\<close>, \<open>-\<close>, \<open>*\<close>, unary \<open>-\<close>, \<open>>\<close> and
  \<open><=\<close>, and the numpy functions \<open>absolute\<close>, \<open>sum\<close>, \<open>array\<close>,
  \<open>maximum\<close> (of an array and a scalar) and \<open>minimum\<close> (of two scalars).
\<close>

record 'v numeric =
  num_zero :: 'v
  num_one :: 'v
  eps :: 'v
  py_add :: "'v \<Rightarrow> 'v \<Rightarrow> 'v"
  py_sub :: "'v \<Rightarrow> 'v \<Rightarrow> 'v"
  py_mul :: "'v \<Rightarrow> 'v \<Rightarrow> 'v"
  py_neg :: "'v \<Rightarrow> 'v"
  py_gt :: "'v \<Rightarrow> 'v \<Rightarrow> bool"
  py_le :: "'v \<Rightarrow> 'v \<Rightarrow> bool"
  np_absolute :: "'v \<Rightarrow> 'v"
  np_sum :: "'v list \<Rightarrow> 'v"
  np_array :: "'v list \<Rightarrow> 'v list"
  np_maximum :: "'v list \<Rightarrow> 'v \<Rightarrow> 'v list"
  np_minimum :: "'v \<Rightarrow> 'v \<Rightarrow> 'v"

record 'v matrix =
  shape0 :: nat
  shape1 :: nat
  cell :: "nat \<Rightarrow> nat \<Rightarrow> 'v"

text \<open>The subclass of a node, with the attributes only that subclass has.\<close>

datatype 'v cls =
  Variable (i_index: int) (j_index: int)
| Factor (dismatrix: "'v matrix") (reg: 'v)

record 'v node =
  nodetype :: string
  nid :: nat
  damp :: 'v
  neighbors :: "ref list"
  in_msgs :: "'v list"
  out_msgs :: "'v list"
  prev_out_msgs :: "'v list"
  kind :: "'v cls"

type_synonym 'v store = "ref \<Rightarrow> 'v node"

definition VALID_NODES :: "string list" where
  "VALID_NODES = [''X'', ''IJ'', ''IC'', ''JF'']"

subsection \<open>Python and numpy primitives\<close>

text \<open>\<open>xs.index(x)\<close>: the first position of \<open>x\<close>; \<open>None\<close> is the ValueError.\<close>

fun index_of :: "'a list \<Rightarrow> 'a \<Rightarrow> nat option" where
  "index_of [] x = None"
| "index_of (y # ys) x =
     (if y = x then Some 0
      else (case index_of ys x of None \<Rightarrow> None | Some k \<Rightarrow> Some (Suc k)))"

text \<open>\<open>del xs[i]\<close> on a copy of the list, for an index in range.\<close>

definition del_at :: "nat \<Rightarrow> 'a list \<Rightarrow> 'a list" where
  "del_at i xs = take i xs @ drop (Suc i) xs"

text \<open>
  The builtin \<open>max(xs)\<close> keeps the first element and replaces it by each later one
  that compares greater; \<open>None\<close> is the ValueError on [].
\<close>

fun max_list :: "'v numeric \<Rightarrow> 'v list \<Rightarrow> 'v option" where
  "max_list A [] = None"
| "max_list A (x # xs) = Some (fold (\<lambda>y m. if py_gt A y m then y else m) xs x)"

text \<open>An index along an axis of length \<open>n\<close>: numpy counts a negative index from the end.\<close>

definition axis_index :: "nat \<Rightarrow> int \<Rightarrow> nat option" where
  "axis_index n a =
     (if 0 \<le> a \<and> a < int n then Some (nat a)
      else if - int n \<le> a \<and> a < 0 then Some (nat (a + int n))
      else None)"

text \<open>\<open>d[a, b]\<close>; \<open>None\<close> is the IndexError.\<close>

definition getitem :: "'v matrix \<Rightarrow> int \<Rightarrow> int \<Rightarrow> 'v option" where
  "getitem d a b =
     (case axis_index (shape0 d) a of
        None \<Rightarrow> None
      | Some r \<Rightarrow>
          (case axis_index (shape1 d) b of
             None \<Rightarrow> None
           | Some c \<Rightarrow> Some (cell d r c)))"

text \<open>\<open>for i in range(...)\<close> over a mutable state; the first exception ends the loop.\<close>

fun for_each :: "(nat \<Rightarrow> 's \<Rightarrow> 's outcome) \<Rightarrow> nat list \<Rightarrow> 's \<Rightarrow> 's outcome" where
  "for_each body [] s = Done s"
| "for_each body (i # rest) s =
     (case body i s of
        Done s' \<Rightarrow> for_each body rest s'
      | Raised e s' \<Rightarrow> Raised e s')"

subsection \<open>class Node\<close>

definition validTypes :: "string \<Rightarrow> error + unit" where
  "validTypes arg = (if arg \<notin> set VALID_NODES then Inl ValueError else Inr ())"

text \<open>\<open>Node.__init__\<close>, for a subclass with attributes \<open>c\<close>.\<close>

definition Node_init :: "string \<Rightarrow> nat \<Rightarrow> 'v \<Rightarrow> 'v cls \<Rightarrow> error + 'v node" where
  "Node_init node_type n d c =
     (case validTypes node_type of
        Inl e \<Rightarrow> Inl e
      | Inr u \<Rightarrow>
          Inr \<lparr>nodetype = node_type, nid = n, damp = d, neighbors = [], in_msgs = [],
               out_msgs = [], prev_out_msgs = [], kind = c\<rparr>)"

text \<open>The four appends \<open>addNeighbors\<close> does on one endpoint.\<close>

definition append_slot :: "'v numeric \<Rightarrow> 'v node \<Rightarrow> ref \<Rightarrow> 'v node" where
  "append_slot A n r =
     n\<lparr>neighbors := neighbors n @ [r], in_msgs := in_msgs n @ [num_zero A],
       out_msgs := out_msgs n @ [num_zero A],
       prev_out_msgs := prev_out_msgs n @ [num_zero A]\<rparr>"

definition addNeighbors :: "'v numeric \<Rightarrow> 'v store \<Rightarrow> ref \<Rightarrow> ref \<Rightarrow> 'v store" where
  "addNeighbors A s self other =
     (let s1 = s(self := append_slot A (s self) other)
      in s1(other := append_slot A (s1 other) self))"

definition receiveMsg :: "'v store \<Rightarrow> ref \<Rightarrow> ref \<Rightarrow> 'v \<Rightarrow> 'v store outcome" where
  "receiveMsg s self sender msg =
     (case index_of (neighbors (s self)) sender of
        None \<Rightarrow> Raised ValueError s
      | Some idx \<Rightarrow>
          if idx < length (in_msgs (s self))
          then Done (s(self := (s self)\<lparr>in_msgs := (in_msgs (s self))[idx := msg]\<rparr>))
          else Raised IndexError s)"

definition sendMsg_body :: "ref \<Rightarrow> nat \<Rightarrow> 'v store \<Rightarrow> 'v store outcome" where
  "sendMsg_body self i s =
     (if i < length (neighbors (s self)) \<and> i < length (out_msgs (s self))
      then receiveMsg s (neighbors (s self) ! i) self (out_msgs (s self) ! i)
      else Raised IndexError s)"

definition sendMsg :: "'v store \<Rightarrow> ref \<Rightarrow> 'v store outcome" where
  "sendMsg s self = for_each (sendMsg_body self) [0..<length (neighbors (s self))] s"

fun checkConvergence_loop :: "'v numeric \<Rightarrow> 'v node \<Rightarrow> nat list \<Rightarrow> error + bool" where
  "checkConvergence_loop A n [] = Inr True"
| "checkConvergence_loop A n (i # rest) =
     (if i < length (prev_out_msgs n)
      then (let delta = np_absolute A (py_sub A (out_msgs n ! i) (prev_out_msgs n ! i))
            in if py_gt A delta (eps A) then Inr False else checkConvergence_loop A n rest)
      else Inl IndexError)"

definition checkConvergence :: "'v numeric \<Rightarrow> 'v node \<Rightarrow> error + bool" where
  "checkConvergence A n = checkConvergence_loop A n [0..<length (out_msgs n)]"

text \<open>\<open>self.out_msgs[i] = v\<close>.\<close>

definition store_out :: "nat \<Rightarrow> 'v \<Rightarrow> 'v node \<Rightarrow> 'v node outcome" where
  "store_out i v n =
     (if i < length (out_msgs n) then Done (n\<lparr>out_msgs := (out_msgs n)[i := v]\<rparr>)
      else Raised IndexError n)"

text \<open>The first two statements of both \<open>message\<close> methods.\<close>

definition snapshot :: "'v node \<Rightarrow> 'v node" where
  "snapshot n = n\<lparr>prev_out_msgs := out_msgs n\<rparr>"

text \<open>
  The expression \<open>(damp * prev) + ((1 - damp) * x)\<close>, which all four assignments to
  \<open>out_msgs\<close> share.
\<close>

definition damped :: "'v numeric \<Rightarrow> 'v \<Rightarrow> 'v \<Rightarrow> 'v \<Rightarrow> 'v" where
  "damped A d prev x = py_add A (py_mul A d prev) (py_mul A (py_sub A (num_one A) d) x)"

subsection \<open>class Variable\<close>

definition Variable_init :: "string \<Rightarrow> nat \<Rightarrow> int \<Rightarrow> int \<Rightarrow> 'v \<Rightarrow> error + 'v node" where
  "Variable_init node_type n i j d = Node_init node_type n d (Variable i j)"

definition Variable_body :: "'v numeric \<Rightarrow> nat \<Rightarrow> 'v node \<Rightarrow> 'v node outcome" where
  "Variable_body A i n =
     (let all_msgs = del_at i (in_msgs n)
      in if i < length (prev_out_msgs n)
         then store_out i (damped A (damp n) (prev_out_msgs n ! i) (np_sum A all_msgs)) n
         else Raised IndexError n)"

definition Variable_message :: "'v numeric \<Rightarrow> 'v node \<Rightarrow> 'v node outcome" where
  "Variable_message A n0 =
     (let n = snapshot n0
      in for_each (Variable_body A) [0..<length (in_msgs n)] n)"

subsection \<open>class Factor\<close>

text \<open>
  \<open>Factor.__init__\<close> for the new object at address \<open>self\<close>: the fields, then one
  \<open>addNeighbors\<close> per variable node.
\<close>

definition Factor_init ::
  "'v numeric \<Rightarrow> 'v store \<Rightarrow> ref \<Rightarrow> string \<Rightarrow> nat \<Rightarrow> ref list \<Rightarrow> 'v matrix \<Rightarrow> 'v \<Rightarrow> 'v
     \<Rightarrow> 'v store outcome" where
  "Factor_init A s self node_type n varnodes d r dmp =
     (case Node_init node_type n dmp (Factor d r) of
        Inl e \<Rightarrow> Raised e s
      | Inr obj \<Rightarrow> Done (fold (\<lambda>v s'. addNeighbors A s' self v) varnodes (s(self := obj))))"

text \<open>\<open>self.neighbors[0].i_index\<close> and \<open>.j_index\<close>: only a Variable has them.\<close>

definition first_neighbor :: "'v store \<Rightarrow> 'v node \<Rightarrow> error + (int \<times> int)" where
  "first_neighbor s n =
     (case neighbors n of
        [] \<Rightarrow> Inl IndexError
      | v # rest \<Rightarrow>
          (case kind (s v) of
             Factor d r \<Rightarrow> Inl AttributeError
           | Variable i j \<Rightarrow> Inr (i, j)))"

text \<open>One element of the comprehension \<open>neighbors[k].in_msgs[slot] - dismatrix[a, b]\<close>.\<close>

definition entry ::
  "'v numeric \<Rightarrow> 'v store \<Rightarrow> 'v node \<Rightarrow> 'v matrix \<Rightarrow> nat \<Rightarrow> nat \<Rightarrow> int \<Rightarrow> int \<Rightarrow> 'v option" where
  "entry A s n d slot k a b =
     (let msgs = in_msgs (s (neighbors n ! k))
      in if slot < length msgs
         then (case getitem d a b of None \<Rightarrow> None | Some x \<Rightarrow> Some (py_sub A (msgs ! slot) x))
         else None)"

text \<open>A list comprehension any of whose elements may raise.\<close>

fun collect :: "(nat \<Rightarrow> 'v option) \<Rightarrow> nat list \<Rightarrow> 'v list option" where
  "collect f [] = Some []"
| "collect f (k # ks) =
     (case f k of
        None \<Rightarrow> None
      | Some x \<Rightarrow> (case collect f ks of None \<Rightarrow> None | Some xs \<Rightarrow> Some (x # xs)))"

definition IJ_branch :: "'v numeric \<Rightarrow> 'v store \<Rightarrow> 'v node \<Rightarrow> 'v matrix \<Rightarrow> 'v node outcome" where
  "IJ_branch A s n d =
     (case first_neighbor s n of
        Inl e \<Rightarrow> Raised e n
      | Inr (i, j) \<Rightarrow>
          (case getitem d i j of
             None \<Rightarrow> Raised IndexError n
           | Some sigma \<Rightarrow>
               if 0 < length (prev_out_msgs n)
               then store_out 0 (damped A (damp n) (prev_out_msgs n ! 0) (py_neg A sigma)) n
               else Raised IndexError n))"

definition JF_body :: "'v numeric \<Rightarrow> 'v list \<Rightarrow> nat \<Rightarrow> 'v node \<Rightarrow> 'v node outcome" where
  "JF_body A eta i n =
     (let temp_eta = del_at i eta
      in if i < length (prev_out_msgs n)
         then (case max_list A temp_eta of
                 None \<Rightarrow> Raised ValueError n
               | Some m \<Rightarrow>
                   store_out i (damped A (damp n) (prev_out_msgs n ! i) (py_neg A m)) n)
         else Raised IndexError n)"

definition JF_branch :: "'v numeric \<Rightarrow> 'v store \<Rightarrow> 'v node \<Rightarrow> 'v matrix \<Rightarrow> 'v node outcome" where
  "JF_branch A s n d =
     (case first_neighbor s n of
        Inl e \<Rightarrow> Raised e n
      | Inr (i0, j) \<Rightarrow>
          (case collect (\<lambda>k. entry A s n d 1 k (int k) j) [0..<length (neighbors n)] of
             None \<Rightarrow> Raised IndexError n
           | Some eta \<Rightarrow> for_each (JF_body A eta) [0..<length (neighbors n)] n))"

text \<open>
  \<open>np.delete(arr, j, 0)\<close> returns a new array and leaves \<open>arr\<close> as it is. The loop body
  of the last branch calls it and drops the result.
\<close>

definition np_delete :: "'v list \<Rightarrow> nat \<Rightarrow> 'v list" where
  "np_delete arr j = del_at j arr"

text \<open>The value \<open>alpha\<close> of one round of the last loop, from the array it reduces.\<close>

definition alpha_of :: "'v numeric \<Rightarrow> 'v \<Rightarrow> 'v list \<Rightarrow> 'v" where
  "alpha_of A r temp_dis_eta =
     (let sum_value = np_sum A (np_maximum A temp_dis_eta (num_zero A))
      in np_minimum A (num_zero A) (py_add A (py_neg A r) sum_value))"

definition IC_body :: "'v numeric \<Rightarrow> 'v \<Rightarrow> 'v list \<Rightarrow> nat \<Rightarrow> 'v node \<Rightarrow> 'v node outcome" where
  "IC_body A r dis_eta j n =
     (let temp_dis_eta = dis_eta;
          dropped = np_delete temp_dis_eta j;
          alpha = alpha_of A r temp_dis_eta
      in if j < length (prev_out_msgs n)
         then store_out j (damped A (damp n) (prev_out_msgs n ! j) alpha) n
         else Raised IndexError n)"

definition IC_branch ::
  "'v numeric \<Rightarrow> 'v store \<Rightarrow> 'v node \<Rightarrow> 'v matrix \<Rightarrow> 'v \<Rightarrow> 'v node outcome" where
  "IC_branch A s n d r =
     (case first_neighbor s n of
        Inl e \<Rightarrow> Raised e n
      | Inr (i, j0) \<Rightarrow>
          (case collect (\<lambda>k. entry A s n d 2 k i (int k)) [0..<length (neighbors n)] of
             None \<Rightarrow> Raised IndexError n
           | Some dis_eta \<Rightarrow>
               for_each (IC_body A r (np_array A dis_eta)) [0..<length (neighbors n)] n))"

text \<open>
  \<open>Factor.message\<close> on the object at \<open>self\<close>, whose matrix is \<open>d\<close> and whose
  regularisation is \<open>r\<close>. The neighbours are read in the store that already holds the
  snapshot.
\<close>

definition Factor_message ::
  "'v numeric \<Rightarrow> 'v store \<Rightarrow> ref \<Rightarrow> 'v matrix \<Rightarrow> 'v \<Rightarrow> 'v node outcome" where
  "Factor_message A s self d r =
     (let n = snapshot (s self);
          s1 = s(self := n)
      in if nodetype n = ''IJ'' then IJ_branch A s1 n d
         else if nodetype n = ''JF'' then JF_branch A s1 n d
         else IC_branch A s1 n d r)"

text \<open>The method call \<open>self.message()\<close>, dispatched on the class of the object.\<close>

definition put :: "'v store \<Rightarrow> ref \<Rightarrow> 'v node outcome \<Rightarrow> 'v store outcome" where
  "put s self res =
     (case res of
        Done n \<Rightarrow> Done (s(self := n))
      | Raised e n \<Rightarrow> Raised e (s(self := n)))"

definition message :: "'v numeric \<Rightarrow> 'v store \<Rightarrow> ref \<Rightarrow> 'v store outcome" where
  "message A s self =
     (case kind (s self) of
        Variable i j \<Rightarrow> put s self (Variable_message A (s self))
      | Factor d r \<Rightarrow> put s self (Factor_message A s self d r))"

subsection \<open>Predicates used in the statements\<close>

text \<open>The alignment of the four per-edge sequences of a node.\<close>

definition aligned :: "'v node \<Rightarrow> bool" where
  "aligned n \<longleftrightarrow>
     length (in_msgs n) = length (neighbors n) \<and>
     length (out_msgs n) = length (neighbors n) \<and>
     length (prev_out_msgs n) = length (neighbors n)"

text \<open>
  What a loop of \<open>message\<close> may do to the node \<open>b\<close> it started from: only
  \<open>out_msgs\<close> differs, and its length is kept.
\<close>

definition keeps :: "'v node \<Rightarrow> 'v node \<Rightarrow> bool" where
  "keeps b m \<longleftrightarrow> (\<exists>xs. m = b\<lparr>out_msgs := xs\<rparr> \<and> length xs = length (out_msgs b))"

text \<open>
  The undamped values of one call of \<open>message\<close>: the third argument of each
  \<open>damped\<close> the call can reach, in the order of the loop.
\<close>

definition new_values :: "'v numeric \<Rightarrow> 'v store \<Rightarrow> ref \<Rightarrow> 'v list" where
  "new_values A s self =
     (let n = snapshot (s self);
          s1 = s(self := n)
      in case kind (s self) of
           Variable vi vj \<Rightarrow> map (\<lambda>i. np_sum A (del_at i (in_msgs n))) [0..<length (in_msgs n)]
         | Factor d r \<Rightarrow>
             (case first_neighbor s1 n of
                Inl e \<Rightarrow> []
              | Inr (i, j) \<Rightarrow>
                  if nodetype n = ''IJ''
                  then (case getitem d i j of None \<Rightarrow> [] | Some sigma \<Rightarrow> [py_neg A sigma])
                  else if nodetype n = ''JF''
                  then (case collect (\<lambda>k. entry A s1 n d 1 k (int k) j)
                               [0..<length (neighbors n)] of
                          None \<Rightarrow> []
                        | Some eta \<Rightarrow>
                            concat (map (\<lambda>t. case max_list A (del_at t eta) of
                                                None \<Rightarrow> []
                                              | Some m \<Rightarrow> [py_neg A m])
                                      [0..<length (neighbors n)]))
                  else (case collect (\<lambda>k. entry A s1 n d 2 k i (int k))
                               [0..<length (neighbors n)] of
                          None \<Rightarrow> []
                        | Some dis_eta \<Rightarrow> [alpha_of A r (np_array A dis_eta)])))"

subsection \<open>One arithmetic: binary64 without rounding\<close>

text \<open>
  The values of binary64 with its infinities and nan, and the IEEE 754 rules for them;
  on finite values the operations are exact. So \<open>exact\<close> computes what Python and numpy
  compute wherever every finite intermediate result is representable (small integers and
  halves in the examples below), and wherever an operand is infinite or nan. The
  constant \<open>10 ** (-4)\<close> is its binary64 value, 7378697629483821 / 2^66.
\<close>

datatype fnum = Fin real | PInf | NInf | NaN

fun f_neg :: "fnum \<Rightarrow> fnum" where
  "f_neg (Fin a) = Fin (- a)"
| "f_neg PInf = NInf"
| "f_neg NInf = PInf"
| "f_neg NaN = NaN"

fun f_add :: "fnum \<Rightarrow> fnum \<Rightarrow> fnum" where
  "f_add (Fin a) (Fin b) = Fin (a + b)"
| "f_add NaN y = NaN"
| "f_add x NaN = NaN"
| "f_add PInf NInf = NaN"
| "f_add NInf PInf = NaN"
| "f_add PInf y = PInf"
| "f_add x PInf = PInf"
| "f_add NInf y = NInf"
| "f_add x NInf = NInf"

definition f_sub :: "fnum \<Rightarrow> fnum \<Rightarrow> fnum" where
  "f_sub x y = f_add x (f_neg y)"

text \<open>An infinity of the sign of \<open>a\<close> times \<open>up\<close>; nan for 0 times infinity.\<close>

definition f_inf :: "real \<Rightarrow> bool \<Rightarrow> fnum" where
  "f_inf a up = (if a = 0 then NaN else if (0 < a) = up then PInf else NInf)"

fun f_mul :: "fnum \<Rightarrow> fnum \<Rightarrow> fnum" where
  "f_mul (Fin a) (Fin b) = Fin (a * b)"
| "f_mul NaN y = NaN"
| "f_mul x NaN = NaN"
| "f_mul (Fin a) PInf = f_inf a True"
| "f_mul (Fin a) NInf = f_inf a False"
| "f_mul PInf (Fin b) = f_inf b True"
| "f_mul NInf (Fin b) = f_inf b False"
| "f_mul PInf PInf = PInf"
| "f_mul NInf NInf = PInf"
| "f_mul PInf NInf = NInf"
| "f_mul NInf PInf = NInf"

fun f_gt :: "fnum \<Rightarrow> fnum \<Rightarrow> bool" where
  "f_gt (Fin a) (Fin b) = (a > b)"
| "f_gt NaN y = False"
| "f_gt x NaN = False"
| "f_gt PInf PInf = False"
| "f_gt PInf y = True"
| "f_gt x PInf = False"
| "f_gt NInf y = False"
| "f_gt x NInf = True"

definition f_le :: "fnum \<Rightarrow> fnum \<Rightarrow> bool" where
  "f_le x y \<longleftrightarrow> x \<noteq> NaN \<and> y \<noteq> NaN \<and> \<not> f_gt x y"

fun f_abs :: "fnum \<Rightarrow> fnum" where
  "f_abs (Fin a) = Fin \<bar>a\<bar>"
| "f_abs PInf = PInf"
| "f_abs NInf = PInf"
| "f_abs NaN = NaN"

text \<open>\<open>np.maximum\<close> and \<open>np.minimum\<close> on two scalars: nan if either is nan.\<close>

definition f_max :: "fnum \<Rightarrow> fnum \<Rightarrow> fnum" where
  "f_max x y = (if x = NaN \<or> y = NaN then NaN else if f_gt y x then y else x)"

definition f_min :: "fnum \<Rightarrow> fnum \<Rightarrow> fnum" where
  "f_min x y = (if x = NaN \<or> y = NaN then NaN else if f_gt x y then y else x)"

definition exact :: "fnum numeric" where
  "exact =
     \<lparr>num_zero = Fin 0, num_one = Fin 1,
      eps = Fin (7378697629483821 / 73786976294838206464),
      py_add = f_add, py_sub = f_sub, py_mul = f_mul, py_neg = f_neg,
      py_gt = f_gt, py_le = f_le, np_absolute = f_abs,
      np_sum = (\<lambda>xs. foldl f_add (Fin 0) xs),
      np_array = (\<lambda>xs. xs),
      np_maximum = (\<lambda>xs c. map (\<lambda>x. f_max x c) xs),
      np_minimum = f_min\<rparr>"

subsection \<open>A small graph\<close>

text \<open>
  One factor at address 0 with the variables at addresses 1 and 2 as its neighbours, over
  the matrix [[1, 2], [3, 4]] and with regularisation 10. Every other address holds a node
  without edges.
\<close>

definition example_d :: "fnum matrix" where
  "example_d =
     \<lparr>shape0 = 2, shape1 = 2, cell = (\<lambda>r c. [[Fin 1, Fin 2], [Fin 3, Fin 4]] ! r ! c)\<rparr>"

definition lone :: "fnum node" where
  "lone = \<lparr>nodetype = ''X'', nid = 0, damp = Fin 0, neighbors = [], in_msgs = [],
            out_msgs = [], prev_out_msgs = [], kind = Variable 0 0\<rparr>"

definition example_factor :: "string \<Rightarrow> fnum \<Rightarrow> ref list \<Rightarrow> fnum list \<Rightarrow> fnum node" where
  "example_factor t dmp nbs outs =
     \<lparr>nodetype = t, nid = 0, damp = dmp, neighbors = nbs, in_msgs = map (\<lambda>v. Fin 0) nbs,
      out_msgs = outs, prev_out_msgs = map (\<lambda>v. Fin 0) nbs,
      kind = Factor example_d (Fin 10)\<rparr>"

definition example_variable :: "nat \<Rightarrow> fnum \<Rightarrow> int \<Rightarrow> int \<Rightarrow> fnum list \<Rightarrow> fnum list \<Rightarrow> fnum node" where
  "example_variable n dmp i j ins outs =
     \<lparr>nodetype = ''X'', nid = n, damp = dmp, neighbors = [3, 4, 0], in_msgs = ins,
      out_msgs = outs, prev_out_msgs = [Fin 0, Fin 0, Fin 0], kind = Variable i j\<rparr>"

definition example_store :: "fnum node \<Rightarrow> fnum store" where
  "example_store f =
     (\<lambda>r. lone)(0 := f,
                 1 := example_variable 1 (Fin 0) 0 0 [Fin 5, Fin 3, Fin 3] [Fin 0, Fin 0, Fin 0],
                 2 := example_variable 2 (Fin 0) 0 1 [Fin 1, Fin 6, Fin 5] [Fin 0, Fin 0, Fin 0])"

section \<open>Properties\<close>

subsection \<open>Lists and loops\<close>

lemma index_of_None: "index_of xs x = None \<longleftrightarrow> x \<notin> set xs"
  by (induction xs) (auto split: option.splits)

lemma index_of_Some:
  "index_of xs x = Some k \<Longrightarrow> k < length xs \<and> xs ! k = x \<and> (\<forall>j<k. xs ! j \<noteq> x)"
proof (induction xs arbitrary: k)
  case Nil
  then show ?case by simp
next
  case (Cons y ys)
  show ?case
  proof (cases "y = x")
    case True
    with Cons.prems show ?thesis by simp
  next
    case False
    with Cons.prems obtain k' where k': "index_of ys x = Some k'" "k = Suc k'"
      by (auto split: option.splits)
    from Cons.IH[OF k'(1)] have ih: "k' < length ys" "ys ! k' = x" "\<forall>j<k'. ys ! j \<noteq> x"
      by auto
    show ?thesis
      using ih False k'(2) by (auto simp: nth_Cons split: nat.splits)
  qed
qed

lemma for_each_invariant_on:
  "P s \<Longrightarrow> (\<forall>i\<in>set ks. \<forall>t. P t \<longrightarrow> P (state_of (body i t))) \<Longrightarrow>
   P (state_of (for_each body ks s))"
proof (induction ks arbitrary: s)
  case Nil
  then show ?case by simp
next
  case (Cons k ks)
  from Cons.prems have step: "P (state_of (body k s))" by simp
  from Cons.prems have rest: "\<forall>i\<in>set ks. \<forall>t. P t \<longrightarrow> P (state_of (body i t))" by simp
  show ?case
  proof (cases "body k s")
    case (Done s')
    with step Cons.IH[of s', OF _ rest] show ?thesis by simp
  next
    case (Raised e s')
    with step show ?thesis by simp
  qed
qed

lemma for_each_invariant:
  assumes "P s" and "\<And>i t. P t \<Longrightarrow> P (state_of (body i t))"
  shows "P (state_of (for_each body ks s))"
  by (rule for_each_invariant_on) (use assms in auto)

lemma for_each_stores:
  fixes n :: "'v node"
  assumes step: "\<And>i xs. i < L \<Longrightarrow> length xs = L \<Longrightarrow>
      body i (n\<lparr>out_msgs := xs\<rparr>) = Done (n\<lparr>out_msgs := xs[i := f i]\<rparr>)"
    and "set ks \<subseteq> {..<L}" and "length xs = L"
  shows "for_each body ks (n\<lparr>out_msgs := xs\<rparr>) =
         Done (n\<lparr>out_msgs := fold (\<lambda>i ys. ys[i := f i]) ks xs\<rparr>)"
  using assms(2,3)
proof (induction ks arbitrary: xs)
  case Nil
  then show ?case by simp
next
  case (Cons k ks)
  then have k: "k < L" and ks: "set ks \<subseteq> {..<L}" by auto
  have len: "length (xs[k := f k]) = L" using Cons.prems by simp
  show ?case
    using step[OF k Cons.prems(2)] Cons.IH[OF ks len] by simp
qed

lemma fold_update_upt:
  "k \<le> length xs \<Longrightarrow>
   fold (\<lambda>i ys. ys[i := f i]) [0..<k] xs = map f [0..<k] @ drop k xs"
proof (induction k)
  case 0
  then show ?case by simp
next
  case (Suc k)
  then have k: "k < length xs" by simp
  have "drop k xs = xs ! k # drop (Suc k) xs"
    using k by (simp add: Cons_nth_drop_Suc)
  then show ?case
    using Suc.IH k by (simp add: list_update_append)
qed

lemma for_each_range:
  fixes n :: "'v node"
  assumes step: "\<And>i xs. i < L \<Longrightarrow> length xs = L \<Longrightarrow>
      body i (n\<lparr>out_msgs := xs\<rparr>) = Done (n\<lparr>out_msgs := xs[i := f i]\<rparr>)"
    and "length (out_msgs n) = L"
  shows "for_each body [0..<L] n = Done (n\<lparr>out_msgs := map f [0..<L]\<rparr>)"
proof -
  have "for_each body [0..<L] (n\<lparr>out_msgs := out_msgs n\<rparr>) =
        Done (n\<lparr>out_msgs := fold (\<lambda>i ys. ys[i := f i]) [0..<L] (out_msgs n)\<rparr>)"
    by (rule for_each_stores[where L = L]) (use assms in auto)
  then show ?thesis
    using assms(2) fold_update_upt[of L "out_msgs n" f] by simp
qed

lemma others_upt:
  assumes "i < n"
  shows "filter (\<lambda>k. k \<noteq> i) [0..<n] = [0..<i] @ [Suc i..<n]"
proof -
  have "[0..<n] = [0..<i] @ [i..<n]"
    using upt_add_eq_append[of 0 i "n - i"] assms by simp
  also have "[i..<n] = i # [Suc i..<n]"
    using assms by (rule upt_conv_Cons)
  finally have split: "[0..<n] = [0..<i] @ i # [Suc i..<n]" .
  have l: "filter (\<lambda>k. k \<noteq> i) [0..<i] = [0..<i]" by (rule filter_True) auto
  have r: "filter (\<lambda>k. k \<noteq> i) [Suc i..<n] = [Suc i..<n]" by (rule filter_True) auto
  show ?thesis
    by (subst split) (simp add: l r)
qed

lemma del_at_map: "del_at i (map g ks) = map g (del_at i ks)"
  by (simp add: del_at_def take_map drop_map)

text \<open>Deleting index \<open>i\<close> leaves the elements at every other index, in order.\<close>

lemma del_at_others:
  assumes "i < length xs"
  shows "del_at i xs = map (\<lambda>k. xs ! k) (filter (\<lambda>k. k \<noteq> i) [0..<length xs])"
proof -
  have "del_at i [0..<length xs] = [0..<i] @ [Suc i..<length xs]"
    using assms by (simp add: del_at_def)
  then have idx: "del_at i [0..<length xs] = filter (\<lambda>k. k \<noteq> i) [0..<length xs]"
    by (simp add: others_upt[OF assms])
  have "del_at i xs = del_at i (map (\<lambda>k. xs ! k) [0..<length xs])"
    by (simp add: map_nth)
  also have "\<dots> = map (\<lambda>k. xs ! k) (del_at i [0..<length xs])"
    by (rule del_at_map)
  finally show ?thesis by (simp only: idx)
qed


lemma collect_map:
  "(\<forall>k\<in>set ks. f k = Some (g k)) \<Longrightarrow> collect f ks = Some (map g ks)"
  by (induction ks) simp_all

lemma collect_length: "collect f ks = Some xs \<Longrightarrow> length xs = length ks"
  by (induction ks arbitrary: xs) (auto split: option.splits)

lemma max_list_member: "max_list A xs = Some m \<Longrightarrow> m \<in> set xs"
proof -
  have "fold (\<lambda>y m. if py_gt A y m then y else m) ys x \<in> set (x # ys)" for x ys
    by (induction ys arbitrary: x) auto
  then show "max_list A xs = Some m \<Longrightarrow> m \<in> set xs"
    by (cases xs) auto
qed

lemma checkConvergence_loop_eq:
  "set ks \<subseteq> {..<length (prev_out_msgs n)} \<Longrightarrow>
   checkConvergence_loop A n ks =
     Inr (\<forall>i\<in>set ks.
            \<not> py_gt A (np_absolute A (py_sub A (out_msgs n ! i) (prev_out_msgs n ! i))) (eps A))"
  by (induction ks) (auto simp: Let_def)

subsection \<open>Receiving a message\<close>

text \<open>
  C7. On a node whose \<open>in_msgs\<close> is as long as its neighbour list, \<open>receiveMsg\<close>
  overwrites the \<open>in_msgs\<close> slot at the first index at which the sender stands in the
  neighbour list and changes nothing else, in this node or in any other; it raises
  (ValueError) exactly when the sender is not in the neighbour list, and then the store is
  as it was.
\<close>

theorem receiveMsg_overwrites_slot:
  assumes "length (in_msgs (s self)) = length (neighbors (s self))"
  shows "(sender \<in> set (neighbors (s self)) \<longrightarrow>
            (\<exists>idx. idx < length (neighbors (s self)) \<and> neighbors (s self) ! idx = sender \<and>
               (\<forall>k<idx. neighbors (s self) ! k \<noteq> sender) \<and>
               receiveMsg s self sender msg =
                 Done (s(self := (s self)\<lparr>in_msgs := (in_msgs (s self))[idx := msg]\<rparr>)))) \<and>
         (sender \<notin> set (neighbors (s self)) \<longrightarrow>
            receiveMsg s self sender msg = Raised ValueError s) \<and>
         (is_raised (receiveMsg s self sender msg) \<longleftrightarrow> sender \<notin> set (neighbors (s self)))"
proof (cases "index_of (neighbors (s self)) sender")
  case None
  then have "sender \<notin> set (neighbors (s self))" by (simp add: index_of_None)
  with None show ?thesis by (simp add: receiveMsg_def)
next
  case (Some idx)
  then have mem: "sender \<in> set (neighbors (s self))"
    using index_of_None[of "neighbors (s self)" sender] by auto
  from index_of_Some[OF Some] have idx: "idx < length (neighbors (s self))"
    "neighbors (s self) ! idx = sender" "\<forall>k<idx. neighbors (s self) ! k \<noteq> sender" by auto
  have run: "receiveMsg s self sender msg =
      Done (s(self := (s self)\<lparr>in_msgs := (in_msgs (s self))[idx := msg]\<rparr>))"
    using Some idx(1) assms by (simp add: receiveMsg_def)
  show ?thesis using mem idx run by auto
qed

theorem receiveMsg_overwrites_slot_witness:
  "length (in_msgs (example_store (example_factor ''JF'' (Fin 0) [1, 2] [Fin 7, Fin 9]) 0)) =
     length (neighbors (example_store (example_factor ''JF'' (Fin 0) [1, 2] [Fin 7, Fin 9]) 0)) \<and>
   in_msgs (state_of (receiveMsg
       (example_store (example_factor ''JF'' (Fin 0) [1, 2] [Fin 7, Fin 9])) 0 2 (Fin 5)) 0)
     = [Fin 0, Fin 5] \<and>
   \<not> is_raised (receiveMsg
       (example_store (example_factor ''JF'' (Fin 0) [1, 2] [Fin 7, Fin 9])) 0 2 (Fin 5)) \<and>
   receiveMsg (example_store (example_factor ''JF'' (Fin 0) [1, 2] [Fin 7, Fin 9])) 0 9 (Fin 5) =
     Raised ValueError (example_store (example_factor ''JF'' (Fin 0) [1, 2] [Fin 7, Fin 9]))"
proof -
  let ?s = "example_store (example_factor ''JF'' (Fin 0) [1, 2] [Fin 7, Fin 9])"
  have h: "length (in_msgs (?s 0)) = length (neighbors (?s 0))"
    by (simp add: example_store_def example_factor_def)
  have nbs: "neighbors (?s 0) = [1, 2]"
    by (simp add: example_store_def example_factor_def)
  have slot: "in_msgs (state_of (receiveMsg ?s 0 2 (Fin 5)) 0) = [Fin 0, Fin 5]"
    by (simp add: receiveMsg_def example_store_def example_factor_def)
  have ok: "\<not> is_raised (receiveMsg ?s 0 2 (Fin 5))"
    using receiveMsg_overwrites_slot[where s = ?s and self = 0 and sender = 2
        and msg = "Fin 5", OF h] nbs by simp
  have bad: "receiveMsg ?s 0 9 (Fin 5) = Raised ValueError ?s"
    using receiveMsg_overwrites_slot[where s = ?s and self = 0 and sender = 9
        and msg = "Fin 5", OF h] nbs by simp
  from h slot ok bad show ?thesis by blast
qed

subsection \<open>The convergence test\<close>

lemma exact_le_iff_not_gt: "x \<noteq> NaN \<Longrightarrow> f_le x (eps exact) \<longleftrightarrow> \<not> f_gt x (eps exact)"
  by (simp add: f_le_def exact_def)

text \<open>
  C6, as the code has it. On a node whose \<open>prev_out_msgs\<close> is as long as its
  \<open>out_msgs\<close>, \<open>checkConvergence\<close> returns true if and only if no edge index i has
  abs(out_msgs[i] - prev_out_msgs[i]) > epsilon, where epsilon is the value of
  \<open>10 ** (-4)\<close>; where \<open><=\<close> is the negation of \<open>>\<close> on these differences (none of
  them is nan), that is: if and only if every difference is <= epsilon. It returns true
  for a node without edges, for a node as \<open>__init__\<close> leaves it, and for a node all of
  whose message slots hold the initial 0 (abs(0 - 0) is not above epsilon).
\<close>

theorem checkConvergence_spec:
  "(length (prev_out_msgs n) = length (out_msgs n) \<longrightarrow>
      checkConvergence A n =
        Inr (\<forall>i<length (out_msgs n).
               \<not> py_gt A (np_absolute A (py_sub A (out_msgs n ! i) (prev_out_msgs n ! i)))
                    (eps A))) \<and>
   (length (prev_out_msgs n) = length (out_msgs n) \<and>
    (\<forall>i<length (out_msgs n).
        py_le A (np_absolute A (py_sub A (out_msgs n ! i) (prev_out_msgs n ! i))) (eps A)
        \<longleftrightarrow> \<not> py_gt A (np_absolute A (py_sub A (out_msgs n ! i) (prev_out_msgs n ! i)))
                (eps A)) \<longrightarrow>
      checkConvergence A n =
        Inr (\<forall>i<length (out_msgs n).
               py_le A (np_absolute A (py_sub A (out_msgs n ! i) (prev_out_msgs n ! i)))
                 (eps A))) \<and>
   (out_msgs n = [] \<longrightarrow> checkConvergence A n = Inr True) \<and>
   (Node_init t i d c = Inr n \<longrightarrow> checkConvergence A n = Inr True) \<and>
   (out_msgs n = replicate k (num_zero A) \<and> prev_out_msgs n = replicate k (num_zero A) \<and>
    \<not> py_gt A (np_absolute A (py_sub A (num_zero A) (num_zero A))) (eps A) \<longrightarrow>
      checkConvergence A n = Inr True)"
proof -
  let ?delta = "\<lambda>i. np_absolute A (py_sub A (out_msgs n ! i) (prev_out_msgs n ! i))"
  have gen: "checkConvergence A n = Inr (\<forall>i<length (out_msgs n). \<not> py_gt A (?delta i) (eps A))"
    if "length (prev_out_msgs n) = length (out_msgs n)"
  proof -
    have "set [0..<length (out_msgs n)] \<subseteq> {..<length (prev_out_msgs n)}"
      using that by auto
    from checkConvergence_loop_eq[OF this] show ?thesis
      by (simp add: checkConvergence_def Ball_def)
  qed
  have le: "checkConvergence A n = Inr (\<forall>i<length (out_msgs n). py_le A (?delta i) (eps A))"
    if "length (prev_out_msgs n) = length (out_msgs n) \<and>
        (\<forall>i<length (out_msgs n). py_le A (?delta i) (eps A) \<longleftrightarrow> \<not> py_gt A (?delta i) (eps A))"
    using that gen by simp
  have empty: "checkConvergence A n = Inr True" if "out_msgs n = []"
    using that by (simp add: checkConvergence_def)
  have fresh: "checkConvergence A n = Inr True" if "Node_init t i d c = Inr n"
    using that by (auto simp: Node_init_def checkConvergence_def split: sum.splits)
  have zeros: "checkConvergence A n = Inr True"
    if "out_msgs n = replicate k (num_zero A) \<and> prev_out_msgs n = replicate k (num_zero A) \<and>
        \<not> py_gt A (np_absolute A (py_sub A (num_zero A) (num_zero A))) (eps A)"
    using that gen by simp
  show ?thesis using gen le empty fresh zeros by blast
qed

theorem checkConvergence_spec_witness:
  "length (prev_out_msgs lone) = length (out_msgs lone) \<and> out_msgs lone = [] \<and>
   Node_init ''X'' 0 (Fin 0) (Variable 0 0) = Inr lone \<and>
   checkConvergence exact lone = Inr True \<and>
   \<not> py_gt exact (np_absolute exact (py_sub exact (num_zero exact) (num_zero exact))) (eps exact) \<and>
   checkConvergence exact
     (example_variable 1 (Fin 0) 0 0 [Fin 5, Fin 3, Fin 3] [Fin 0, Fin 0, Fin 0]) = Inr True \<and>
   checkConvergence exact (example_factor ''JF'' (Fin 0) [1, 2] [Fin 7, Fin 9]) = Inr False"
proof -
  let ?v = "example_variable 1 (Fin 0) 0 0 [Fin 5, Fin 3, Fin 3] [Fin 0, Fin 0, Fin 0]"
  let ?f = "example_factor ''JF'' (Fin 0) [1, 2] [Fin 7, Fin 9]"
  have h1: "length (prev_out_msgs lone) = length (out_msgs lone)" by (simp add: lone_def)
  have h2: "out_msgs lone = []" by (simp add: lone_def)
  have h3: "Node_init ''X'' 0 (Fin 0) (Variable 0 0) = Inr lone"
    by (simp add: Node_init_def validTypes_def VALID_NODES_def lone_def)
  have c1: "checkConvergence exact lone = Inr True"
    using checkConvergence_spec[where n = lone and A = exact and t = "''X''" and i = 0
        and d = "Fin 0" and c = "Variable 0 0" and k = 0] h3 by blast
  have z: "\<not> py_gt exact (np_absolute exact (py_sub exact (num_zero exact) (num_zero exact)))
             (eps exact)"
    by (simp add: exact_def f_sub_def)
  have h5: "out_msgs ?v = replicate 3 (num_zero exact) \<and>
            prev_out_msgs ?v = replicate 3 (num_zero exact)"
    by (simp add: example_variable_def numeral_3_eq_3 exact_def)
  have c2: "checkConvergence exact ?v = Inr True"
    using checkConvergence_spec[where n = ?v and A = exact and t = "''X''" and i = 0
        and d = "Fin 0" and c = "Variable 0 0" and k = 3] h5 z by blast
  have h6: "length (prev_out_msgs ?f) = length (out_msgs ?f)"
    by (simp add: example_factor_def)
  have "checkConvergence exact ?f =
        Inr (\<forall>i<length (out_msgs ?f).
               \<not> py_gt exact (np_absolute exact (py_sub exact (out_msgs ?f ! i)
                    (prev_out_msgs ?f ! i))) (eps exact))"
    using checkConvergence_spec[where n = ?f and A = exact and t = "''X''" and i = 0
        and d = "Fin 0" and c = "Variable 0 0" and k = 0] h6 by blast
  moreover have "\<not> (\<forall>i<length (out_msgs ?f).
               \<not> py_gt exact (np_absolute exact (py_sub exact (out_msgs ?f ! i)
                    (prev_out_msgs ?f ! i))) (eps exact))"
    by (auto simp: example_factor_def exact_def f_sub_def intro!: exI[of _ 0])
  ultimately have c3: "checkConvergence exact ?f = Inr False"
    by simp
  from h1 h2 h3 c1 z c2 c3 show ?thesis by blast
qed

text \<open>
  The claim C6 as the specification states it fails where a difference is nan: the
  variable below has out_msgs = [nan, 0, 0] and prev_out_msgs = [0, 0, 0]; the test
  \<open>nan > epsilon\<close> is false, so \<open>checkConvergence\<close> returns true, while
  \<open>nan <= epsilon\<close> is false as well.
\<close>

theorem checkConvergence_nan_converged:
  "length (prev_out_msgs
     (example_variable 1 (Fin 0) 0 0 [Fin 5, Fin 3, Fin 3] [NaN, Fin 0, Fin 0])) =
   length (out_msgs
     (example_variable 1 (Fin 0) 0 0 [Fin 5, Fin 3, Fin 3] [NaN, Fin 0, Fin 0])) \<and>
   checkConvergence exact
     (example_variable 1 (Fin 0) 0 0 [Fin 5, Fin 3, Fin 3] [NaN, Fin 0, Fin 0]) = Inr True \<and>
   \<not> py_le exact
       (np_absolute exact (py_sub exact
          (out_msgs (example_variable 1 (Fin 0) 0 0 [Fin 5, Fin 3, Fin 3] [NaN, Fin 0, Fin 0]) ! 0)
          (prev_out_msgs
             (example_variable 1 (Fin 0) 0 0 [Fin 5, Fin 3, Fin 3] [NaN, Fin 0, Fin 0]) ! 0)))
       (eps exact)"
proof -
  let ?v = "example_variable 1 (Fin 0) 0 0 [Fin 5, Fin 3, Fin 3] [NaN, Fin 0, Fin 0]"
  have a: "length (prev_out_msgs ?v) = length (out_msgs ?v)"
    by (simp add: example_variable_def)
  have b: "checkConvergence exact ?v = Inr True" by code_simp
  have c: "\<not> py_le exact (np_absolute exact (py_sub exact (out_msgs ?v ! 0)
              (prev_out_msgs ?v ! 0))) (eps exact)"
    by (simp add: example_variable_def exact_def f_sub_def f_le_def)
  from a b c show ?thesis by blast
qed

subsection \<open>What every \<open>message\<close> keeps\<close>

lemma keeps_refl: "keeps b b"
  by (auto simp: keeps_def intro!: exI[of _ "out_msgs b"])

lemma keeps_store_out:
  assumes "keeps b m"
  shows "keeps b (state_of (store_out i v m))"
proof -
  from assms obtain xs where m: "m = b\<lparr>out_msgs := xs\<rparr>"
    and len: "length xs = length (out_msgs b)"
    by (auto simp: keeps_def)
  show ?thesis
  proof (cases "i < length xs")
    case False
    with m assms show ?thesis by (simp add: store_out_def)
  next
    case True
    have "state_of (store_out i v m) = b\<lparr>out_msgs := xs[i := v]\<rparr>"
      using True m by (simp add: store_out_def)
    then show ?thesis using len by (auto simp: keeps_def)
  qed
qed

lemma keeps_Variable_body: "keeps b m \<Longrightarrow> keeps b (state_of (Variable_body A i m))"
  by (auto simp: Variable_body_def Let_def intro!: keeps_store_out)

lemma keeps_JF_body: "keeps b m \<Longrightarrow> keeps b (state_of (JF_body A eta i m))"
  by (auto simp: JF_body_def Let_def split: option.splits intro!: keeps_store_out)

lemma keeps_IC_body: "keeps b m \<Longrightarrow> keeps b (state_of (IC_body A r dis_eta i m))"
  by (auto simp: IC_body_def Let_def intro!: keeps_store_out)

lemma keeps_Variable_message: "keeps (snapshot n) (state_of (Variable_message A n))"
  unfolding Variable_message_def Let_def
  by (rule for_each_invariant[where P = "keeps (snapshot n)"])
     (simp_all add: keeps_refl keeps_Variable_body)

lemma keeps_IJ_branch: "keeps n (state_of (IJ_branch A s n d))"
  by (auto simp: IJ_branch_def keeps_refl split: sum.splits option.splits prod.splits
      intro!: keeps_store_out)

lemma keeps_JF_branch: "keeps n (state_of (JF_branch A s n d))"
proof -
  have "keeps n (state_of (for_each (JF_body A eta) ks n))" for eta ks
    by (rule for_each_invariant[where P = "keeps n"]) (simp_all add: keeps_refl keeps_JF_body)
  then show ?thesis
    by (auto simp: JF_branch_def keeps_refl split: sum.splits option.splits prod.splits)
qed

lemma keeps_IC_branch: "keeps n (state_of (IC_branch A s n d r))"
proof -
  have "keeps n (state_of (for_each (IC_body A r eta) ks n))" for eta ks
    by (rule for_each_invariant[where P = "keeps n"]) (simp_all add: keeps_refl keeps_IC_body)
  then show ?thesis
    by (auto simp: IC_branch_def keeps_refl split: sum.splits option.splits prod.splits)
qed

lemma keeps_Factor_message:
  "keeps (snapshot (s self)) (state_of (Factor_message A s self d r))"
  by (simp add: Factor_message_def Let_def keeps_IJ_branch keeps_JF_branch keeps_IC_branch)

lemma state_of_put: "state_of (put s self res) = s(self := state_of res)"
  by (cases res) (simp_all add: put_def)

lemma is_raised_put: "is_raised (put s self res) = is_raised res"
  by (cases res) (simp_all add: put_def)

lemma message_keeps:
  "\<exists>m. state_of (message A s self) = s(self := m) \<and> keeps (snapshot (s self)) m"
  by (cases "kind (s self)")
     (auto simp: message_def state_of_put keeps_Variable_message keeps_Factor_message)

lemma snapshot_fields [simp]:
  "neighbors (snapshot n) = neighbors n" "in_msgs (snapshot n) = in_msgs n"
  "out_msgs (snapshot n) = out_msgs n" "prev_out_msgs (snapshot n) = out_msgs n"
  "damp (snapshot n) = damp n" "nodetype (snapshot n) = nodetype n" "kind (snapshot n) = kind n"
  by (simp_all add: snapshot_def)

lemma snapshot_store [simp]:
  "kind ((s(self := snapshot (s self))) v) = kind (s v)"
  "in_msgs ((s(self := snapshot (s self))) v) = in_msgs (s v)"
  by simp_all

subsection \<open>The frame of \<open>message\<close>\<close>

text \<open>
  C10. For every node, \<open>message\<close> (whether it returned or raised) leaves the node's
  \<open>neighbors\<close>, \<open>in_msgs\<close> and \<open>damp\<close> as they were, leaves every other node as it
  was, and leaves in \<open>prev_out_msgs\<close> the \<open>out_msgs\<close> of before the call, whatever
  was written to \<open>out_msgs\<close> afterwards.
\<close>

theorem message_frame:
  "neighbors (state_of (message A s self) self) = neighbors (s self) \<and>
   in_msgs (state_of (message A s self) self) = in_msgs (s self) \<and>
   damp (state_of (message A s self) self) = damp (s self) \<and>
   prev_out_msgs (state_of (message A s self) self) = out_msgs (s self) \<and>
   state_of (message A s self) = (s(self := state_of (message A s self) self))"
proof -
  from message_keeps[of A s self] obtain m
    where m: "state_of (message A s self) = s(self := m)" "keeps (snapshot (s self)) m"
    by blast
  from m(2) have "neighbors m = neighbors (s self)" "in_msgs m = in_msgs (s self)"
    "damp m = damp (s self)" "prev_out_msgs m = out_msgs (s self)"
    by (auto simp: keeps_def snapshot_def)
  with m(1) show ?thesis by simp
qed

theorem message_frame_witness:
  "out_msgs (state_of (message exact
      (example_store (example_factor ''JF'' (Fin (1 / 2)) [1, 2] [Fin 7, Fin 9])) 0) 0)
     = [Fin 2, Fin (7 / 2)] \<and>
   prev_out_msgs (state_of (message exact
      (example_store (example_factor ''JF'' (Fin (1 / 2)) [1, 2] [Fin 7, Fin 9])) 0) 0)
     = [Fin 7, Fin 9] \<and>
   neighbors (state_of (message exact
      (example_store (example_factor ''JF'' (Fin (1 / 2)) [1, 2] [Fin 7, Fin 9])) 0) 0)
     = [1, 2] \<and>
   in_msgs (state_of (message exact
      (example_store (example_factor ''JF'' (Fin (1 / 2)) [1, 2] [Fin 7, Fin 9])) 0) 0)
     = [Fin 0, Fin 0] \<and>
   damp (state_of (message exact
      (example_store (example_factor ''JF'' (Fin (1 / 2)) [1, 2] [Fin 7, Fin 9])) 0) 0)
     = Fin (1 / 2) \<and>
   in_msgs (state_of (message exact
      (example_store (example_factor ''JF'' (Fin (1 / 2)) [1, 2] [Fin 7, Fin 9])) 0) 2)
     = [Fin 1, Fin 6, Fin 5]"
proof -
  let ?s = "example_store (example_factor ''JF'' (Fin (1 / 2)) [1, 2] [Fin 7, Fin 9])"
  have o: "out_msgs (state_of (message exact ?s 0) 0) = [Fin 2, Fin (7 / 2)]" by code_simp
  have v: "out_msgs (?s 0) = [Fin 7, Fin 9]" "neighbors (?s 0) = [1, 2]"
    "in_msgs (?s 0) = [Fin 0, Fin 0]" "damp (?s 0) = Fin (1 / 2)"
    "in_msgs (?s 2) = [Fin 1, Fin 6, Fin 5]"
    by (simp_all add: example_store_def example_factor_def example_variable_def)
  note f = message_frame[of exact ?s 0]
  have other: "state_of (message exact ?s 0) 2 = ?s 2"
  proof -
    from f have "state_of (message exact ?s 0) = (?s(0 := state_of (message exact ?s 0) 0))"
      by blast
    then have "state_of (message exact ?s 0) 2 = (?s(0 := state_of (message exact ?s 0) 0)) 2"
      by (rule arg_cong)
    then show ?thesis by simp
  qed
  from f v o other show ?thesis by simp
qed

subsection \<open>Edges and the alignment of the four sequences\<close>

lemma aligned_append_slot: "aligned n \<Longrightarrow> aligned (append_slot A n r)"
  by (simp add: aligned_def append_slot_def)

lemma aligned_addNeighbors:
  assumes "\<forall>r. aligned (s r)"
  shows "aligned (addNeighbors A s a b r)"
  using assms by (simp add: addNeighbors_def Let_def aligned_append_slot)

lemma aligned_receiveMsg:
  assumes "\<forall>r. aligned (s r)"
  shows "\<forall>r. aligned (state_of (receiveMsg s a x v) r)"
proof -
  have "aligned ((s a)\<lparr>in_msgs := (in_msgs (s a))[k := v]\<rparr>)" for k
    using assms[rule_format, of a] by (simp add: aligned_def)
  with assms show ?thesis
    by (auto simp: receiveMsg_def split: option.splits)
qed

lemma aligned_sendMsg:
  fixes s :: "'v store"
  assumes "\<forall>r. aligned (s r)"
  shows "\<forall>r. aligned (state_of (sendMsg s a) r)"
  unfolding sendMsg_def
proof (rule for_each_invariant[where P = "\<lambda>t::'v store. \<forall>r. aligned (t r)"])
  show "\<forall>r. aligned (s r)" by (rule assms)
next
  fix i and t :: "'v store" assume "\<forall>r. aligned (t r)"
  then show "\<forall>r. aligned (state_of (sendMsg_body a i t) r)"
    using aligned_receiveMsg[of t] by (simp add: sendMsg_body_def)
qed

lemma aligned_message:
  assumes "\<forall>r. aligned (s r)"
  shows "\<forall>r. aligned (state_of (message A s a) r)"
proof -
  from message_keeps[of A s a] obtain m
    where m: "state_of (message A s a) = s(a := m)" "keeps (snapshot (s a)) m"
    by blast
  from m(2) assms[rule_format, of a] have "aligned m"
    by (auto simp: keeps_def snapshot_def aligned_def)
  with m(1) assms show ?thesis by simp
qed

text \<open>
  C8. For two distinct nodes A and B, \<open>addNeighbors\<close> appends B to A's neighbour list and
  A to B's, and one slot holding 0 to \<open>in_msgs\<close>, \<open>out_msgs\<close> and
  \<open>prev_out_msgs\<close> of each of the two; no other node changes. When the four sequences
  of every node have one length, they still have after \<open>addNeighbors\<close>,
  \<open>receiveMsg\<close>, \<open>message\<close> and \<open>sendMsg\<close>, on every node, whether the
  operation returned or raised.
\<close>

theorem addNeighbors_and_alignment:
  "(a \<noteq> b \<longrightarrow>
      neighbors (addNeighbors A s a b a) = neighbors (s a) @ [b] \<and>
      neighbors (addNeighbors A s a b b) = neighbors (s b) @ [a] \<and>
      in_msgs (addNeighbors A s a b a) = in_msgs (s a) @ [num_zero A] \<and>
      in_msgs (addNeighbors A s a b b) = in_msgs (s b) @ [num_zero A] \<and>
      out_msgs (addNeighbors A s a b a) = out_msgs (s a) @ [num_zero A] \<and>
      out_msgs (addNeighbors A s a b b) = out_msgs (s b) @ [num_zero A] \<and>
      prev_out_msgs (addNeighbors A s a b a) = prev_out_msgs (s a) @ [num_zero A] \<and>
      prev_out_msgs (addNeighbors A s a b b) = prev_out_msgs (s b) @ [num_zero A] \<and>
      (\<forall>r. r \<noteq> a \<and> r \<noteq> b \<longrightarrow> addNeighbors A s a b r = s r)) \<and>
   ((\<forall>r. aligned (s r)) \<longrightarrow>
      (\<forall>r. aligned (addNeighbors A s a b r) \<and>
           aligned (state_of (receiveMsg s a b v) r) \<and>
           aligned (state_of (message A s a) r) \<and>
           aligned (state_of (sendMsg s a) r)))"
proof -
  have edge: "neighbors (addNeighbors A s a b a) = neighbors (s a) @ [b] \<and>
      neighbors (addNeighbors A s a b b) = neighbors (s b) @ [a] \<and>
      in_msgs (addNeighbors A s a b a) = in_msgs (s a) @ [num_zero A] \<and>
      in_msgs (addNeighbors A s a b b) = in_msgs (s b) @ [num_zero A] \<and>
      out_msgs (addNeighbors A s a b a) = out_msgs (s a) @ [num_zero A] \<and>
      out_msgs (addNeighbors A s a b b) = out_msgs (s b) @ [num_zero A] \<and>
      prev_out_msgs (addNeighbors A s a b a) = prev_out_msgs (s a) @ [num_zero A] \<and>
      prev_out_msgs (addNeighbors A s a b b) = prev_out_msgs (s b) @ [num_zero A] \<and>
      (\<forall>r. r \<noteq> a \<and> r \<noteq> b \<longrightarrow> addNeighbors A s a b r = s r)" if "a \<noteq> b"
    using that by (simp add: addNeighbors_def Let_def append_slot_def)
  have inv: "\<forall>r. aligned (addNeighbors A s a b r) \<and>
           aligned (state_of (receiveMsg s a b v) r) \<and>
           aligned (state_of (message A s a) r) \<and>
           aligned (state_of (sendMsg s a) r)" if h: "\<forall>r. aligned (s r)"
    using aligned_addNeighbors[OF h] aligned_receiveMsg[OF h] aligned_message[OF h]
      aligned_sendMsg[OF h] by blast
  from edge inv show ?thesis by blast
qed

theorem addNeighbors_and_alignment_witness:
  "(0::nat) \<noteq> 3 \<and>
   (\<forall>r. aligned (example_store (example_factor ''JF'' (Fin 0) [1, 2] [Fin 7, Fin 9]) r)) \<and>
   neighbors (addNeighbors exact
      (example_store (example_factor ''JF'' (Fin 0) [1, 2] [Fin 7, Fin 9])) 0 3 0) = [1, 2, 3] \<and>
   neighbors (addNeighbors exact
      (example_store (example_factor ''JF'' (Fin 0) [1, 2] [Fin 7, Fin 9])) 0 3 3) = [0] \<and>
   out_msgs (addNeighbors exact
      (example_store (example_factor ''JF'' (Fin 0) [1, 2] [Fin 7, Fin 9])) 0 3 0)
     = [Fin 7, Fin 9, Fin 0] \<and>
   aligned (addNeighbors exact
      (example_store (example_factor ''JF'' (Fin 0) [1, 2] [Fin 7, Fin 9])) 0 3 0) \<and>
   aligned (state_of (message exact
      (example_store (example_factor ''JF'' (Fin 0) [1, 2] [Fin 7, Fin 9])) 0) 0) \<and>
   aligned (state_of (sendMsg
      (example_store (example_factor ''JF'' (Fin 0) [1, 2] [Fin 7, Fin 9])) 0) 1)"
proof -
  let ?s = "example_store (example_factor ''JF'' (Fin 0) [1, 2] [Fin 7, Fin 9])"
  have d: "(0::nat) \<noteq> 3" by simp
  have h: "\<forall>r. aligned (?s r)"
    by (simp add: example_store_def example_factor_def example_variable_def lone_def aligned_def)
  have v: "neighbors (?s 0) = [1, 2]" "neighbors (?s 3) = []" "out_msgs (?s 0) = [Fin 7, Fin 9]"
    "num_zero exact = Fin 0"
    by (simp_all add: example_store_def example_factor_def lone_def exact_def)
  note t = addNeighbors_and_alignment[of 0 3 exact ?s "Fin 5"]
  from t d v have e: "neighbors (addNeighbors exact ?s 0 3 0) = [1, 2, 3]"
    "neighbors (addNeighbors exact ?s 0 3 3) = [0]"
    "out_msgs (addNeighbors exact ?s 0 3 0) = [Fin 7, Fin 9, Fin 0]"
    by simp_all
  from t h have i: "aligned (addNeighbors exact ?s 0 3 0)"
    "aligned (state_of (message exact ?s 0) 0)"
    "aligned (state_of (sendMsg ?s 0) 1)"
    by blast+
  from d h e i show ?thesis by blast
qed

subsection \<open>Messages of a variable node\<close>

lemma Variable_body_step:
  fixes xs :: "'v list" and n :: "'v node"
  assumes "i < L" "length xs = L" "length (prev_out_msgs n) = L"
  shows "Variable_body A i (n\<lparr>out_msgs := xs\<rparr>) =
         Done (n\<lparr>out_msgs := xs[i := damped A (damp n) (prev_out_msgs n ! i)
                                   (np_sum A (del_at i (in_msgs n)))]\<rparr>)"
  using assms by (simp add: Variable_body_def store_out_def Let_def)

lemma Variable_message_closed:
  assumes "length (out_msgs n) = length (in_msgs n)"
  shows "Variable_message A n =
         Done (n\<lparr>prev_out_msgs := out_msgs n,
                 out_msgs := map (\<lambda>i. damped A (damp n) (out_msgs n ! i)
                     (np_sum A (del_at i (in_msgs n)))) [0..<length (in_msgs n)]\<rparr>)"
proof -
  let ?m = "snapshot n"
  let ?L = "length (in_msgs n)"
  have "for_each (Variable_body A) [0..<?L] ?m =
        Done (?m\<lparr>out_msgs := map (\<lambda>i. damped A (damp ?m) (prev_out_msgs ?m ! i)
                     (np_sum A (del_at i (in_msgs ?m)))) [0..<?L]\<rparr>)"
  proof (rule for_each_range)
    show "length (out_msgs ?m) = ?L" using assms by simp
  next
    fix i and xs :: "'a list" assume "i < ?L" "length xs = ?L"
    then show "Variable_body A i (?m\<lparr>out_msgs := xs\<rparr>) =
        Done (?m\<lparr>out_msgs := xs[i := damped A (damp ?m) (prev_out_msgs ?m ! i)
                 (np_sum A (del_at i (in_msgs ?m)))]\<rparr>)"
      using assms by (intro Variable_body_step[where L = ?L]) simp_all
  qed
  then show ?thesis by (simp add: Variable_message_def snapshot_def Let_def)
qed

text \<open>
  C2. On a Variable node whose \<open>out_msgs\<close> is as long as its \<open>in_msgs\<close>,
  \<open>message\<close> stores the old \<open>out_msgs\<close> as \<open>prev_out_msgs\<close> and sets, for
  every index t, out_msgs[t] = damp * prev_out_msgs[t] + (1 - damp) * S, where S is
  \<open>np.sum\<close> of the \<open>in_msgs\<close> at every index but t, in index order. The operators
  are those of the program's numbers. The example of the claim (in_msgs = [2, -1, 3],
  damp = 0, result [2, 5, 1]) is the second instance of the witness.
\<close>

theorem Variable_message_leave_one_out:
  assumes "kind (s self) = Variable i j"
    and "length (out_msgs (s self)) = length (in_msgs (s self))"
  shows "message A s self =
           Done (s(self := (s self)\<lparr>prev_out_msgs := out_msgs (s self),
             out_msgs := map (\<lambda>t.
                 py_add A (py_mul A (damp (s self)) (out_msgs (s self) ! t))
                   (py_mul A (py_sub A (num_one A) (damp (s self)))
                      (np_sum A (map (\<lambda>k. in_msgs (s self) ! k)
                         (filter (\<lambda>k. k \<noteq> t) [0..<length (in_msgs (s self))])))))
               [0..<length (in_msgs (s self))]\<rparr>))"
proof -
  let ?n = "s self"
  have closed: "Variable_message A ?n =
      Done (?n\<lparr>prev_out_msgs := out_msgs ?n,
              out_msgs := map (\<lambda>t. damped A (damp ?n) (out_msgs ?n ! t)
                  (np_sum A (del_at t (in_msgs ?n)))) [0..<length (in_msgs ?n)]\<rparr>)"
    using assms(2) by (rule Variable_message_closed)
  have sums: "map (\<lambda>t. damped A (damp ?n) (out_msgs ?n ! t)
                  (np_sum A (del_at t (in_msgs ?n)))) [0..<length (in_msgs ?n)] =
              map (\<lambda>t. py_add A (py_mul A (damp ?n) (out_msgs ?n ! t))
                   (py_mul A (py_sub A (num_one A) (damp ?n))
                      (np_sum A (map (\<lambda>k. in_msgs ?n ! k)
                         (filter (\<lambda>k. k \<noteq> t) [0..<length (in_msgs ?n)])))))
                [0..<length (in_msgs ?n)]"
    by (rule map_cong) (simp_all add: del_at_others damped_def)
  show ?thesis
    using assms(1) closed sums by (simp add: message_def put_def)
qed

theorem Variable_message_leave_one_out_witness:
  "kind (example_store lone 1) = Variable 0 0 \<and>
   length (out_msgs (example_store lone 1)) = length (in_msgs (example_store lone 1)) \<and>
   \<not> is_raised (message exact (example_store lone) 1) \<and>
   out_msgs (state_of (message exact (example_store lone) 1) 1) = [Fin 6, Fin 8, Fin 8] \<and>
   prev_out_msgs (state_of (message exact (example_store lone) 1) 1) = [Fin 0, Fin 0, Fin 0] \<and>
   out_msgs (state_of (message exact
      ((example_store lone)
         (1 := example_variable 1 (Fin 0) 0 0 [Fin 2, Fin (- 1), Fin 3] [Fin 0, Fin 0, Fin 0]))
      1) 1) = [Fin 2, Fin 5, Fin 1]"
proof -
  let ?s = "example_store lone"
  let ?t = "?s(1 := example_variable 1 (Fin 0) 0 0 [Fin 2, Fin (- 1), Fin 3] [Fin 0, Fin 0, Fin 0])"
  have h1: "kind (?s 1) = Variable 0 0"
    by (simp add: example_store_def example_variable_def)
  have h2: "length (out_msgs (?s 1)) = length (in_msgs (?s 1))"
    by (simp add: example_store_def example_variable_def)
  note run = Variable_message_leave_one_out[where s = ?s and self = 1 and A = exact, OF h1 h2]
  have c0: "\<not> is_raised (message exact ?s 1)" by (subst run) simp
  have c1: "out_msgs (state_of (message exact ?s 1) 1) = [Fin 6, Fin 8, Fin 8]"
    by code_simp
  have c2: "prev_out_msgs (state_of (message exact ?s 1) 1) = [Fin 0, Fin 0, Fin 0]"
    by (subst run) (simp add: example_store_def example_variable_def)
  have g1: "kind (?t 1) = Variable 0 0" by (simp add: example_variable_def)
  have g2: "length (out_msgs (?t 1)) = length (in_msgs (?t 1))"
    by (simp add: example_variable_def)
  have three: "[0..<3] = [0, 1, 2]" by (simp add: upt_rec)
  have c3: "out_msgs (state_of (message exact ?t 1) 1) = [Fin 2, Fin 5, Fin 1]"
    by (subst Variable_message_leave_one_out[where s = ?t and self = 1 and A = exact, OF g1 g2])
       (simp add: example_variable_def exact_def f_sub_def three)
  from h1 h2 c0 c1 c2 c3 show ?thesis by blast
qed

subsection \<open>Messages of a factor node\<close>

text \<open>
  C9. On a Factor node of type IJ whose only neighbour is the Variable of the pair (i, j),
  with \<open>d[i, j]\<close> inside the matrix and one \<open>out_msgs\<close> slot, \<open>message\<close> sets
  out_msgs[0] = damp * prev_out_msgs[0] + (1 - damp) * (- d[i, j]), where
  \<open>prev_out_msgs\<close> is the old \<open>out_msgs\<close> and the operators are those of the
  program's numbers. The example of the claim (d[i, j] = 4, damp = 0, result -4) is the
  second instance of the witness.
\<close>

theorem pairwise_link_message:
  assumes "kind (s self) = Factor d r" and "nodetype (s self) = ''IJ''"
    and "neighbors (s self) = [v]" and "kind (s v) = Variable i j"
    and "length (out_msgs (s self)) = 1"
    and "getitem d i j = Some sigma"
  shows "message A s self =
           Done (s(self := (s self)\<lparr>prev_out_msgs := out_msgs (s self),
             out_msgs := [py_add A (py_mul A (damp (s self)) (out_msgs (s self) ! 0))
                            (py_mul A (py_sub A (num_one A) (damp (s self)))
                               (py_neg A sigma))]\<rparr>))"
proof -
  let ?n = "snapshot (s self)"
  let ?s1 = "s(self := ?n)"
  obtain x where x: "out_msgs (s self) = [x]"
    using assms(5) by (cases "out_msgs (s self)") simp_all
  have fn: "first_neighbor ?s1 ?n = Inr (i, j)"
    using assms(3,4) by (auto simp: first_neighbor_def)
  have "IJ_branch A ?s1 ?n d =
        Done (?n\<lparr>out_msgs := [damped A (damp (s self)) x (py_neg A sigma)]\<rparr>)"
    using fn assms(6) x by (simp add: IJ_branch_def store_out_def)
  then have "Factor_message A s self d r =
        Done ((s self)\<lparr>prev_out_msgs := out_msgs (s self),
             out_msgs := [damped A (damp (s self)) (out_msgs (s self) ! 0) (py_neg A sigma)]\<rparr>)"
    using assms(2) x by (simp add: Factor_message_def Let_def snapshot_def)
  then show ?thesis
    using assms(1) by (simp add: message_def put_def damped_def)
qed

theorem pairwise_link_message_witness:
  "kind (example_store (example_factor ''IJ'' (Fin 0) [2] [Fin 7]) 0) = Factor example_d (Fin 10) \<and>
   nodetype (example_store (example_factor ''IJ'' (Fin 0) [2] [Fin 7]) 0) = ''IJ'' \<and>
   neighbors (example_store (example_factor ''IJ'' (Fin 0) [2] [Fin 7]) 0) = [2] \<and>
   kind (example_store (example_factor ''IJ'' (Fin 0) [2] [Fin 7]) 2) = Variable 0 1 \<and>
   length (out_msgs (example_store (example_factor ''IJ'' (Fin 0) [2] [Fin 7]) 0)) = 1 \<and>
   getitem example_d 0 1 = Some (Fin 2) \<and>
   out_msgs (state_of (message exact
      (example_store (example_factor ''IJ'' (Fin 0) [2] [Fin 7])) 0) 0) = [Fin (- 2)] \<and>
   prev_out_msgs (state_of (message exact
      (example_store (example_factor ''IJ'' (Fin 0) [2] [Fin 7])) 0) 0) = [Fin 7] \<and>
   getitem (example_d\<lparr>cell := \<lambda>a b. Fin 4\<rparr>) 0 1 = Some (Fin 4) \<and>
   out_msgs (state_of (message exact (example_store
      ((example_factor ''IJ'' (Fin 0) [2] [Fin 0])
         \<lparr>kind := Factor (example_d\<lparr>cell := \<lambda>a b. Fin 4\<rparr>) (Fin 10)\<rparr>)) 0) 0)
     = [Fin (- 4)]"
proof -
  let ?s = "example_store (example_factor ''IJ'' (Fin 0) [2] [Fin 7])"
  let ?d4 = "example_d\<lparr>cell := \<lambda>a b. Fin 4\<rparr>"
  let ?t = "example_store ((example_factor ''IJ'' (Fin 0) [2] [Fin 0])\<lparr>kind := Factor ?d4 (Fin 10)\<rparr>)"
  have h1: "kind (?s 0) = Factor example_d (Fin 10)" "nodetype (?s 0) = ''IJ''"
    "neighbors (?s 0) = [2]" "kind (?s 2) = Variable 0 1" "length (out_msgs (?s 0)) = 1"
    by (simp_all add: example_store_def example_factor_def example_variable_def)
  have g: "getitem example_d 0 1 = Some (Fin 2)"
    by (simp add: getitem_def axis_index_def example_d_def)
  have c1: "out_msgs (state_of (message exact ?s 0) 0) = [Fin (- 2)]"
    by (subst pairwise_link_message[where s = ?s and self = 0 and A = exact, OF h1 g])
       (simp add: example_store_def example_factor_def exact_def f_sub_def)
  have c1': "prev_out_msgs (state_of (message exact ?s 0) 0) = [Fin 7]"
    by (subst pairwise_link_message[where s = ?s and self = 0 and A = exact, OF h1 g])
       (simp add: example_store_def example_factor_def)
  have h2: "kind (?t 0) = Factor ?d4 (Fin 10)" "nodetype (?t 0) = ''IJ''"
    "neighbors (?t 0) = [2]" "kind (?t 2) = Variable 0 1" "length (out_msgs (?t 0)) = 1"
    by (simp_all add: example_store_def example_factor_def example_variable_def)
  have g4: "getitem ?d4 0 1 = Some (Fin 4)"
    by (simp add: getitem_def axis_index_def example_d_def)
  have c2: "out_msgs (state_of (message exact ?t 0) 0) = [Fin (- 4)]"
    by (subst pairwise_link_message[where s = ?t and self = 0 and A = exact, OF h2 g4])
       (simp add: example_store_def example_factor_def exact_def f_sub_def)
  from h1 g c1 c1' g4 c2 show ?thesis by blast
qed



lemma entry_snapshot:
  "entry A (s(self := snapshot (s self))) (snapshot (s self)) d slot k a b =
   entry A s (s self) d slot k a b"
proof -
  have same: "in_msgs ((s(self := snapshot (s self))) (neighbors (s self) ! k)) =
              in_msgs (s (neighbors (s self) ! k))"
    by (rule snapshot_store(2))
  show ?thesis
    by (simp only: entry_def snapshot_fields same)
qed

lemma entry_defined:
  assumes "slot < length (in_msgs (s (neighbors n ! k)))" and "getitem d a b = Some x"
  shows "entry A s n d slot k a b = Some (py_sub A (in_msgs (s (neighbors n ! k)) ! slot) x)"
  using assms by (simp add: entry_def Let_def)




subsection \<open>Factors with too few neighbours\<close>

lemma first_neighbor_no_neighbors:
  "neighbors n = [] \<Longrightarrow> first_neighbor s n = Inl IndexError"
  by (simp add: first_neighbor_def)

lemma JF_branch_single:
  assumes "neighbors n = [v]" and "kind (s v) = Variable i j"
    and "in_msgs (s v) = ms"
  shows "JF_branch A s n d =
         Raised (if 1 < length ms \<and> getitem d 0 j \<noteq> None \<and> prev_out_msgs n \<noteq> []
                 then ValueError else IndexError) n"
proof -
  have fn: "first_neighbor s n = Inr (i, j)"
    using assms(1,2) by (simp add: first_neighbor_def)
  have range: "[0..<length (neighbors n)] = [0]" using assms(1) by simp
  show ?thesis
  proof (cases "1 < length ms \<and> getitem d 0 j \<noteq> None")
    case False
    then have "entry A s n d 1 0 (int 0) j = None"
      using assms(1,3) by (auto simp: entry_def Let_def)
    then show ?thesis using fn range False by (simp add: JF_branch_def)
  next
    case True
    then obtain x where x: "getitem d 0 j = Some x" by auto
    have "entry A s n d 1 0 (int 0) j = Some (py_sub A (ms ! 1) x)"
      using assms(1,3) True x by (simp add: entry_def Let_def)
    then have col: "collect (\<lambda>k. entry A s n d 1 k (int k) j) [0] = Some [py_sub A (ms ! 1) x]"
      by simp
    have body: "JF_body A [py_sub A (ms ! 1) x] 0 n =
                Raised (if prev_out_msgs n \<noteq> [] then ValueError else IndexError) n"
      by (simp add: JF_body_def del_at_def Let_def)
    show ?thesis
      using fn range col body True by (simp add: JF_branch_def)
  qed
qed

text \<open>
  C4, as the code has it. A Factor node of type JF with fewer than two neighbours, and a
  Factor node of type IC with no neighbour, make \<open>message\<close> raise instead of producing
  a value, before any write to \<open>out_msgs\<close>. The code has no error class of its own:
  with no neighbour it is the IndexError of \<open>neighbors[0]\<close>; with one neighbour of a JF
  factor it is the AttributeError of \<open>j_index\<close> when that neighbour is a Factor, and
  for a Variable neighbour the ValueError of \<open>max\<close> on an empty list, or an IndexError
  when the neighbour has fewer than two \<open>in_msgs\<close>, when d[0, j] is outside the matrix,
  or when \<open>out_msgs\<close> is empty.
\<close>

theorem too_few_neighbors_raises:
  assumes "kind (s self) = Factor d r"
  shows "(nodetype (s self) = ''JF'' \<and> neighbors (s self) = [] \<longrightarrow>
            message A s self = Raised IndexError (s(self := snapshot (s self)))) \<and>
         (nodetype (s self) = ''JF'' \<and> neighbors (s self) = [v] \<and> kind (s v) = Factor d' r' \<longrightarrow>
            message A s self = Raised AttributeError (s(self := snapshot (s self)))) \<and>
         (nodetype (s self) = ''JF'' \<and> neighbors (s self) = [v] \<and> kind (s v) = Variable i j \<longrightarrow>
            message A s self =
              Raised (if 1 < length (in_msgs (s v)) \<and> getitem d 0 j \<noteq> None \<and>
                         out_msgs (s self) \<noteq> []
                      then ValueError else IndexError) (s(self := snapshot (s self)))) \<and>
         (nodetype (s self) = ''IC'' \<and> neighbors (s self) = [] \<longrightarrow>
            message A s self = Raised IndexError (s(self := snapshot (s self))))"
proof -
  let ?n = "snapshot (s self)"
  let ?s1 = "s(self := ?n)"
  have run: "message A s self = put s self (Factor_message A s self d r)"
    using assms by (simp add: message_def)
  have jf0: "message A s self = Raised IndexError ?s1"
    if "nodetype (s self) = ''JF'' \<and> neighbors (s self) = []"
  proof -
    from that have "JF_branch A ?s1 ?n d = Raised IndexError ?n"
      by (simp add: JF_branch_def first_neighbor_no_neighbors)
    with that have "Factor_message A s self d r = Raised IndexError ?n"
      by (simp add: Factor_message_def Let_def)
    then show ?thesis by (simp add: run put_def)
  qed
  have jf1f: "message A s self = Raised AttributeError ?s1"
    if "nodetype (s self) = ''JF'' \<and> neighbors (s self) = [v] \<and> kind (s v) = Factor d' r'"
  proof -
    from that have "first_neighbor ?s1 ?n = Inl AttributeError"
      by (auto simp: first_neighbor_def)
    then have "JF_branch A ?s1 ?n d = Raised AttributeError ?n"
      by (simp add: JF_branch_def)
    with that have "Factor_message A s self d r = Raised AttributeError ?n"
      by (simp add: Factor_message_def Let_def)
    then show ?thesis by (simp add: run put_def)
  qed
  have jf1v: "message A s self =
              Raised (if 1 < length (in_msgs (s v)) \<and> getitem d 0 j \<noteq> None \<and>
                         out_msgs (s self) \<noteq> []
                      then ValueError else IndexError) ?s1"
    if h: "nodetype (s self) = ''JF'' \<and> neighbors (s self) = [v] \<and> kind (s v) = Variable i j"
  proof -
    have nb: "neighbors ?n = [v]" using h by simp
    have kv: "kind (?s1 v) = Variable i j" using h by (simp only: snapshot_store)
    have ms: "in_msgs (?s1 v) = in_msgs (s v)" by (simp only: snapshot_store)
    from JF_branch_single[where s = ?s1 and n = ?n and v = v and ms = "in_msgs (s v)"
        and A = A and d = d, OF nb kv ms]
    have "JF_branch A ?s1 ?n d =
          Raised (if 1 < length (in_msgs (s v)) \<and> getitem d 0 j \<noteq> None \<and>
                     out_msgs (s self) \<noteq> []
                  then ValueError else IndexError) ?n"
      by simp
    with h have "Factor_message A s self d r =
          Raised (if 1 < length (in_msgs (s v)) \<and> getitem d 0 j \<noteq> None \<and>
                     out_msgs (s self) \<noteq> []
                  then ValueError else IndexError) ?n"
      by (simp add: Factor_message_def Let_def)
    then show ?thesis by (simp add: run put_def)
  qed
  have ic0: "message A s self = Raised IndexError ?s1"
    if "nodetype (s self) = ''IC'' \<and> neighbors (s self) = []"
  proof -
    from that have "IC_branch A ?s1 ?n d r = Raised IndexError ?n"
      by (simp add: IC_branch_def first_neighbor_no_neighbors)
    with that have "Factor_message A s self d r = Raised IndexError ?n"
      by (simp add: Factor_message_def Let_def)
    then show ?thesis by (simp add: run put_def)
  qed
  from jf0 jf1f jf1v ic0 show ?thesis by blast
qed

theorem too_few_neighbors_raises_witness:
  "kind (example_store (example_factor ''JF'' (Fin 0) [1] [Fin 7]) 0) = Factor example_d (Fin 10) \<and>
   nodetype (example_store (example_factor ''JF'' (Fin 0) [1] [Fin 7]) 0) = ''JF'' \<and>
   neighbors (example_store (example_factor ''JF'' (Fin 0) [1] [Fin 7]) 0) = [1] \<and>
   kind (example_store (example_factor ''JF'' (Fin 0) [1] [Fin 7]) 1) = Variable 0 0 \<and>
   message exact (example_store (example_factor ''JF'' (Fin 0) [1] [Fin 7])) 0 =
     Raised ValueError ((example_store (example_factor ''JF'' (Fin 0) [1] [Fin 7]))
        (0 := snapshot (example_store (example_factor ''JF'' (Fin 0) [1] [Fin 7]) 0))) \<and>
   neighbors (example_store (example_factor ''JF'' (Fin 0) [] []) 0) = [] \<and>
   message exact (example_store (example_factor ''JF'' (Fin 0) [] [])) 0 =
     Raised IndexError ((example_store (example_factor ''JF'' (Fin 0) [] []))
        (0 := snapshot (example_store (example_factor ''JF'' (Fin 0) [] []) 0))) \<and>
   kind (((example_store (example_factor ''JF'' (Fin 0) [3] [Fin 7]))
           (3 := example_factor ''IJ'' (Fin 0) [] [])) 3) = Factor example_d (Fin 10) \<and>
   message exact ((example_store (example_factor ''JF'' (Fin 0) [3] [Fin 7]))
           (3 := example_factor ''IJ'' (Fin 0) [] [])) 0 =
     Raised AttributeError (((example_store (example_factor ''JF'' (Fin 0) [3] [Fin 7]))
           (3 := example_factor ''IJ'' (Fin 0) [] []))
        (0 := snapshot (((example_store (example_factor ''JF'' (Fin 0) [3] [Fin 7]))
           (3 := example_factor ''IJ'' (Fin 0) [] [])) 0))) \<and>
   nodetype (example_store (example_factor ''IC'' (Fin 0) [] []) 0) = ''IC'' \<and>
   message exact (example_store (example_factor ''IC'' (Fin 0) [] [])) 0 =
     Raised IndexError ((example_store (example_factor ''IC'' (Fin 0) [] []))
        (0 := snapshot (example_store (example_factor ''IC'' (Fin 0) [] []) 0)))"
proof -
  let ?s = "example_store (example_factor ''JF'' (Fin 0) [1] [Fin 7])"
  let ?e = "example_store (example_factor ''JF'' (Fin 0) [] [])"
  let ?f = "(example_store (example_factor ''JF'' (Fin 0) [3] [Fin 7]))
              (3 := example_factor ''IJ'' (Fin 0) [] [])"
  let ?t = "example_store (example_factor ''IC'' (Fin 0) [] [])"
  have ks: "kind (?s 0) = Factor example_d (Fin 10)"
    by (simp add: example_store_def example_factor_def)
  have hs: "nodetype (?s 0) = ''JF''" "neighbors (?s 0) = [1]" "kind (?s 1) = Variable 0 0"
    by (simp_all add: example_store_def example_factor_def example_variable_def)
  have vs: "1 < length (in_msgs (?s 1))" "getitem example_d 0 0 \<noteq> None" "out_msgs (?s 0) \<noteq> []"
    by (simp_all add: example_store_def example_factor_def example_variable_def getitem_def
        axis_index_def example_d_def)
  from too_few_neighbors_raises[where s = ?s and self = 0 and A = exact and v = 1
      and i = 0 and j = 0, OF ks] hs vs
  have c1: "message exact ?s 0 = Raised ValueError (?s(0 := snapshot (?s 0)))" by simp
  have ke: "kind (?e 0) = Factor example_d (Fin 10)"
    by (simp add: example_store_def example_factor_def)
  have he: "nodetype (?e 0) = ''JF''" "neighbors (?e 0) = []"
    by (simp_all add: example_store_def example_factor_def)
  from too_few_neighbors_raises[where s = ?e and self = 0 and A = exact, OF ke] he
  have c2: "message exact ?e 0 = Raised IndexError (?e(0 := snapshot (?e 0)))" by simp
  have kf: "kind (?f 0) = Factor example_d (Fin 10)"
    by (simp add: example_store_def example_factor_def)
  have hf: "nodetype (?f 0) = ''JF''" "neighbors (?f 0) = [3]"
    "kind (?f 3) = Factor example_d (Fin 10)"
    by (simp_all add: example_store_def example_factor_def)
  from too_few_neighbors_raises[where s = ?f and self = 0 and A = exact and v = 3
      and d' = example_d and r' = "Fin 10", OF kf] hf
  have c3: "message exact ?f 0 = Raised AttributeError (?f(0 := snapshot (?f 0)))" by simp
  have kt: "kind (?t 0) = Factor example_d (Fin 10)"
    by (simp add: example_store_def example_factor_def)
  have ht: "nodetype (?t 0) = ''IC''" "neighbors (?t 0) = []"
    by (simp_all add: example_store_def example_factor_def)
  from too_few_neighbors_raises[where s = ?t and self = 0 and A = exact, OF kt] ht
  have c4: "message exact ?t 0 = Raised IndexError (?t(0 := snapshot (?t 0)))" by simp
  from ks hs c1 he(2) c2 hf(3) c3 ht(1) c4 show ?thesis by blast
qed

text \<open>
  The claim C4 as the specification states it fails: a Factor node of type IC with exactly
  one neighbour produces a value.
\<close>

theorem column_budget_single_neighbor_returns:
  "kind (example_store (example_factor ''IC'' (Fin 0) [1] [Fin 7]) 0) = Factor example_d (Fin 10) \<and>
   nodetype (example_store (example_factor ''IC'' (Fin 0) [1] [Fin 7]) 0) = ''IC'' \<and>
   length (neighbors (example_store (example_factor ''IC'' (Fin 0) [1] [Fin 7]) 0)) < 2 \<and>
   \<not> is_raised (message exact (example_store (example_factor ''IC'' (Fin 0) [1] [Fin 7])) 0) \<and>
   out_msgs (state_of (message exact
      (example_store (example_factor ''IC'' (Fin 0) [1] [Fin 7])) 0) 0) = [Fin (- 8)]"
proof -
  let ?s = "example_store (example_factor ''IC'' (Fin 0) [1] [Fin 7])"
  have a: "kind (?s 0) = Factor example_d (Fin 10)" "nodetype (?s 0) = ''IC''"
    "length (neighbors (?s 0)) < 2"
    by (simp_all add: example_store_def example_factor_def)
  have b: "\<not> is_raised (message exact ?s 0)" by code_simp
  have c: "out_msgs (state_of (message exact ?s 0) 0) = [Fin (- 8)]" by code_simp
  from a b c show ?thesis by blast
qed

subsection \<open>The column-budget update\<close>

lemma IC_body_step:
  fixes xs :: "'v list" and n :: "'v node"
  assumes "i < L" "length xs = L" "length (prev_out_msgs n) = L"
  shows "IC_body A r dis_eta i (n\<lparr>out_msgs := xs\<rparr>) =
         Done (n\<lparr>out_msgs := xs[i := damped A (damp n) (prev_out_msgs n ! i)
                                   (alpha_of A r dis_eta)]\<rparr>)"
  using assms by (simp add: IC_body_def store_out_def Let_def)

text \<open>
  What the last branch of \<open>Factor.message\<close> computes: \<open>alpha\<close> is reduced from the
  whole array, the target's own entry included, since the result of \<open>np.delete\<close> is
  dropped; it is the same value for every target.
\<close>

lemma column_budget_closed_form:
  assumes "kind (s self) = Factor d r" and "nodetype (s self) = ''IC''"
    and "neighbors (s self) \<noteq> []"
    and "length (out_msgs (s self)) = length (neighbors (s self))"
    and "kind (s (neighbors (s self) ! 0)) = Variable i j0"
    and "\<forall>k<length (neighbors (s self)).
           2 < length (in_msgs (s (neighbors (s self) ! k))) \<and>
           getitem d i (int k) = Some (dis k)"
  shows "message A s self =
           Done (s(self := (s self)\<lparr>prev_out_msgs := out_msgs (s self),
             out_msgs := map (\<lambda>t. damped A (damp (s self)) (out_msgs (s self) ! t)
                 (alpha_of A r (np_array A
                    (map (\<lambda>k. py_sub A (in_msgs (s (neighbors (s self) ! k)) ! 2) (dis k))
                       [0..<length (neighbors (s self))]))))
               [0..<length (neighbors (s self))]\<rparr>))"
proof -
  let ?n = "snapshot (s self)"
  let ?s1 = "s(self := ?n)"
  let ?L = "length (neighbors (s self))"
  let ?eta = "\<lambda>k. py_sub A (in_msgs (s (neighbors (s self) ! k)) ! 2) (dis k)"
  let ?arr = "np_array A (map ?eta [0..<?L])"
  let ?new = "\<lambda>t. damped A (damp ?n) (prev_out_msgs ?n ! t) (alpha_of A r ?arr)"
  obtain v rest where nb: "neighbors (s self) = v # rest"
    using assms(3) by (cases "neighbors (s self)") simp_all
  have fn: "first_neighbor ?s1 ?n = Inr (i, j0)"
    using nb assms(5) by (auto simp: first_neighbor_def)
  have "\<forall>k\<in>set [0..<?L]. entry A ?s1 ?n d 2 k i (int k) = Some (?eta k)"
  proof
    fix k assume "k \<in> set [0..<?L]"
    then have k: "k < ?L" by simp
    from assms(6) k have ok: "2 < length (in_msgs (s (neighbors (s self) ! k)))"
      "getitem d i (int k) = Some (dis k)" by auto
    show "entry A ?s1 ?n d 2 k i (int k) = Some (?eta k)"
      by (simp only: entry_snapshot
          entry_defined[where s = s and n = "s self" and slot = 2 and k = k, OF ok])
  qed
  then have col: "collect (\<lambda>k. entry A ?s1 ?n d 2 k i (int k)) [0..<?L] =
                  Some (map ?eta [0..<?L])"
    by (rule collect_map)
  have loop: "for_each (IC_body A r ?arr) [0..<?L] ?n =
              Done (?n\<lparr>out_msgs := map ?new [0..<?L]\<rparr>)"
  proof (rule for_each_range)
    show "length (out_msgs ?n) = ?L" using assms(4) by simp
  next
    fix t and xs :: "'a list" assume "t < ?L" "length xs = ?L"
    then show "IC_body A r ?arr t (?n\<lparr>out_msgs := xs\<rparr>) =
          Done (?n\<lparr>out_msgs := xs[t := ?new t]\<rparr>)"
      using assms(4) by (intro IC_body_step[where L = ?L]) simp_all
  qed
  have "IC_branch A ?s1 ?n d r = Done (?n\<lparr>out_msgs := map ?new [0..<?L]\<rparr>)"
    using fn col loop by (simp add: IC_branch_def)
  then have "Factor_message A s self d r = Done (?n\<lparr>out_msgs := map ?new [0..<?L]\<rparr>)"
    using assms(2) by (simp add: Factor_message_def Let_def)
  then show ?thesis
    using assms(1) by (simp add: message_def put_def snapshot_def)
qed

text \<open>
  C1 on the code. The factor of type IC at address 0 has the neighbours 1 and 2, damping 0
  and regularisation 10; dis_eta is [3 - 1, 5 - 2] = [2, 3]. The claim asks for
  min(0, -10 + 3) = -7 at index 0 and min(0, -10 + 2) = -8 at index 1. The code gives
  min(0, -10 + 2 + 3) = -5 at both: the target's own term stays in the sum.
\<close>

theorem column_budget_sums_target_too:
  "nodetype (example_store (example_factor ''IC'' (Fin 0) [1, 2] [Fin 7, Fin 9]) 0) = ''IC'' \<and>
   neighbors (example_store (example_factor ''IC'' (Fin 0) [1, 2] [Fin 7, Fin 9]) 0) = [1, 2] \<and>
   damp (example_store (example_factor ''IC'' (Fin 0) [1, 2] [Fin 7, Fin 9]) 0) = Fin 0 \<and>
   entry exact (example_store (example_factor ''IC'' (Fin 0) [1, 2] [Fin 7, Fin 9]))
     (example_store (example_factor ''IC'' (Fin 0) [1, 2] [Fin 7, Fin 9]) 0) example_d 2 0 0 0
     = Some (Fin 2) \<and>
   entry exact (example_store (example_factor ''IC'' (Fin 0) [1, 2] [Fin 7, Fin 9]))
     (example_store (example_factor ''IC'' (Fin 0) [1, 2] [Fin 7, Fin 9]) 0) example_d 2 1 0 1
     = Some (Fin 3) \<and>
   \<not> is_raised (message exact
       (example_store (example_factor ''IC'' (Fin 0) [1, 2] [Fin 7, Fin 9])) 0) \<and>
   out_msgs (state_of (message exact
       (example_store (example_factor ''IC'' (Fin 0) [1, 2] [Fin 7, Fin 9])) 0) 0)
     = [Fin (- 5), Fin (- 5)] \<and>
   out_msgs (state_of (message exact
       (example_store (example_factor ''IC'' (Fin 0) [1, 2] [Fin 7, Fin 9])) 0) 0)
     \<noteq> [f_min (Fin 0) (f_add (f_neg (Fin 10)) (f_max (Fin 3) (Fin 0))),
         f_min (Fin 0) (f_add (f_neg (Fin 10)) (f_max (Fin 2) (Fin 0)))] \<and>
   [f_min (Fin 0) (f_add (f_neg (Fin 10)) (f_max (Fin 3) (Fin 0))),
    f_min (Fin 0) (f_add (f_neg (Fin 10)) (f_max (Fin 2) (Fin 0)))] = [Fin (- 7), Fin (- 8)]"
proof -
  let ?s = "example_store (example_factor ''IC'' (Fin 0) [1, 2] [Fin 7, Fin 9])"
  have a: "nodetype (?s 0) = ''IC''" "neighbors (?s 0) = [1, 2]" "damp (?s 0) = Fin 0"
    by (simp_all add: example_store_def example_factor_def)
  have e0: "entry exact ?s (?s 0) example_d 2 0 0 0 = Some (Fin 2)" by code_simp
  have e1: "entry exact ?s (?s 0) example_d 2 1 0 1 = Some (Fin 3)" by code_simp
  have b: "\<not> is_raised (message exact ?s 0)" by code_simp
  have c: "out_msgs (state_of (message exact ?s 0) 0) = [Fin (- 5), Fin (- 5)]" by code_simp
  have v: "[f_min (Fin 0) (f_add (f_neg (Fin 10)) (f_max (Fin 3) (Fin 0))),
            f_min (Fin 0) (f_add (f_neg (Fin 10)) (f_max (Fin 2) (Fin 0)))]
           = [Fin (- 7), Fin (- 8)]"
    by (simp add: f_min_def f_max_def)
  have d: "out_msgs (state_of (message exact ?s 0) 0) \<noteq>
           [f_min (Fin 0) (f_add (f_neg (Fin 10)) (f_max (Fin 3) (Fin 0))),
            f_min (Fin 0) (f_add (f_neg (Fin 10)) (f_max (Fin 2) (Fin 0)))]"
    by (subst c, subst v) simp
  from a e0 e1 b c d v show ?thesis by blast
qed

subsection \<open>Damping 1\<close>

lemma exact_damp_one_finite: "damped exact (Fin 1) p (Fin x) = p"
  by (cases p) (simp_all add: damped_def exact_def f_sub_def f_inf_def)

lemma write_same:
  assumes "damp b = num_one A" and "prev_out_msgs b = out_msgs b"
    and "\<forall>p\<in>set (out_msgs b). damped A (num_one A) p x = p"
  shows "state_of (store_out i (damped A (damp b) (prev_out_msgs b ! i) x) b) = b"
proof (cases "i < length (out_msgs b)")
  case False
  then show ?thesis by (simp add: store_out_def)
next
  case True
  then have "out_msgs b ! i \<in> set (out_msgs b)" by simp
  with assms have "damped A (damp b) (prev_out_msgs b ! i) x = out_msgs b ! i" by simp
  then show ?thesis using True by (simp add: store_out_def)
qed

lemma loop_same:
  assumes "\<forall>i\<in>set ks. state_of (body i b) = b"
  shows "state_of (for_each body ks b) = b"
  by (rule for_each_invariant_on[where P = "\<lambda>m. m = b"]) (use assms in auto)

lemma Variable_message_same:
  assumes "damp n = num_one A"
    and "\<forall>p\<in>set (out_msgs n).
           \<forall>x\<in>set (map (\<lambda>i. np_sum A (del_at i (in_msgs n))) [0..<length (in_msgs n)]).
             damped A (num_one A) p x = p"
  shows "state_of (Variable_message A n) = snapshot n"
proof -
  let ?b = "snapshot n"
  have "state_of (Variable_body A i ?b) = ?b" if "i \<in> set [0..<length (in_msgs ?b)]" for i
  proof -
    have "\<forall>p\<in>set (out_msgs ?b). damped A (num_one A) p (np_sum A (del_at i (in_msgs ?b))) = p"
      using assms(2) that by auto
    then have "state_of (store_out i (damped A (damp ?b) (prev_out_msgs ?b ! i)
                 (np_sum A (del_at i (in_msgs ?b)))) ?b) = ?b"
      using assms(1) by (intro write_same) simp_all
    then show ?thesis by (simp add: Variable_body_def Let_def)
  qed
  then show ?thesis
    unfolding Variable_message_def Let_def by (intro loop_same) blast
qed

lemma IJ_branch_same:
  assumes "damp b = num_one A" and "prev_out_msgs b = out_msgs b"
    and "\<forall>i j sigma. first_neighbor s b = Inr (i, j) \<and> getitem d i j = Some sigma \<longrightarrow>
           (\<forall>p\<in>set (out_msgs b). damped A (num_one A) p (py_neg A sigma) = p)"
  shows "state_of (IJ_branch A s b d) = b"
proof (cases "first_neighbor s b")
  case (Inl e)
  then show ?thesis by (simp add: IJ_branch_def)
next
  case (Inr q)
  obtain i j where q: "q = (i, j)" by (cases q)
  show ?thesis
  proof (cases "getitem d i j")
    case None
    with Inr q show ?thesis by (simp add: IJ_branch_def)
  next
    case (Some sigma)
    with assms(3) Inr q
    have "\<forall>p\<in>set (out_msgs b). damped A (num_one A) p (py_neg A sigma) = p" by blast
    from write_same[OF assms(1,2) this, of 0] Inr q Some show ?thesis
      by (simp add: IJ_branch_def)
  qed
qed

lemma JF_branch_same:
  assumes "damp b = num_one A" and "prev_out_msgs b = out_msgs b"
    and "\<forall>i j eta t m. first_neighbor s b = Inr (i, j) \<and>
           collect (\<lambda>k. entry A s b d 1 k (int k) j) [0..<length (neighbors b)] = Some eta \<and>
           t < length (neighbors b) \<and> max_list A (del_at t eta) = Some m \<longrightarrow>
           (\<forall>p\<in>set (out_msgs b). damped A (num_one A) p (py_neg A m) = p)"
  shows "state_of (JF_branch A s b d) = b"
proof (cases "first_neighbor s b")
  case (Inl e)
  then show ?thesis by (simp add: JF_branch_def)
next
  case (Inr q)
  obtain i j where q: "q = (i, j)" by (cases q)
  show ?thesis
  proof (cases "collect (\<lambda>k. entry A s b d 1 k (int k) j) [0..<length (neighbors b)]")
    case None
    with Inr q show ?thesis by (simp add: JF_branch_def)
  next
    case (Some eta)
    have "state_of (JF_body A eta t b) = b" if "t \<in> set [0..<length (neighbors b)]" for t
    proof (cases "max_list A (del_at t eta)")
      case None
      then show ?thesis by (simp add: JF_body_def Let_def)
    next
      case (Some m)
      from that have "t < length (neighbors b)" by simp
      with assms(3) Inr q \<open>collect _ _ = Some eta\<close> Some
      have "\<forall>p\<in>set (out_msgs b). damped A (num_one A) p (py_neg A m) = p" by blast
      from write_same[OF assms(1,2) this, of t] Some show ?thesis
        by (simp add: JF_body_def Let_def)
    qed
    then have "state_of (for_each (JF_body A eta) [0..<length (neighbors b)] b) = b"
      by (intro loop_same) blast
    with Inr q Some show ?thesis by (simp add: JF_branch_def)
  qed
qed

lemma IC_branch_same:
  assumes "damp b = num_one A" and "prev_out_msgs b = out_msgs b"
    and "\<forall>i j dis_eta. first_neighbor s b = Inr (i, j) \<and>
           collect (\<lambda>k. entry A s b d 2 k i (int k)) [0..<length (neighbors b)] = Some dis_eta
           \<longrightarrow> (\<forall>p\<in>set (out_msgs b).
                  damped A (num_one A) p (alpha_of A r (np_array A dis_eta)) = p)"
  shows "state_of (IC_branch A s b d r) = b"
proof (cases "first_neighbor s b")
  case (Inl e)
  then show ?thesis by (simp add: IC_branch_def)
next
  case (Inr q)
  obtain i j where q: "q = (i, j)" by (cases q)
  show ?thesis
  proof (cases "collect (\<lambda>k. entry A s b d 2 k i (int k)) [0..<length (neighbors b)]")
    case None
    with Inr q show ?thesis by (simp add: IC_branch_def)
  next
    case (Some dis_eta)
    with assms(3) Inr q
    have law: "\<forall>p\<in>set (out_msgs b).
                 damped A (num_one A) p (alpha_of A r (np_array A dis_eta)) = p" by blast
    have "state_of (IC_body A r (np_array A dis_eta) t b) = b" for t
      using write_same[OF assms(1,2) law, of t] by (simp add: IC_body_def Let_def)
    then have "state_of (for_each (IC_body A r (np_array A dis_eta))
                 [0..<length (neighbors b)] b) = b"
      by (intro loop_same) blast
    with Inr q Some show ?thesis by (simp add: IC_branch_def)
  qed
qed
lemma Factor_message_same:
  assumes "kind (s self) = Factor d r" and "damp (s self) = num_one A"
    and "\<forall>p\<in>set (out_msgs (s self)). \<forall>x\<in>set (new_values A s self).
           damped A (num_one A) p x = p"
  shows "state_of (Factor_message A s self d r) = snapshot (s self)"
proof -
  let ?b = "snapshot (s self)"
  let ?s1 = "s(self := ?b)"
  let ?L = "length (neighbors ?b)"
  have b: "damp ?b = num_one A" "prev_out_msgs ?b = out_msgs ?b"
    using assms(2) by simp_all
  have law: "\<forall>p\<in>set (out_msgs ?b). \<forall>x\<in>set (new_values A s self).
               damped A (num_one A) p x = p"
    using assms(3) by simp
  consider (ij) "nodetype ?b = ''IJ''"
    | (jf) "nodetype ?b \<noteq> ''IJ''" "nodetype ?b = ''JF''"
    | (ic) "nodetype ?b \<noteq> ''IJ''" "nodetype ?b \<noteq> ''JF''"
    by blast
  then show ?thesis
  proof cases
    case ij
    have "\<forall>i j sigma. first_neighbor ?s1 ?b = Inr (i, j) \<and> getitem d i j = Some sigma \<longrightarrow>
           (\<forall>p\<in>set (out_msgs ?b). damped A (num_one A) p (py_neg A sigma) = p)"
    proof (intro allI impI)
      fix i j sigma
      assume h: "first_neighbor ?s1 ?b = Inr (i, j) \<and> getitem d i j = Some sigma"
      then have "new_values A s self = [py_neg A sigma]"
        using assms(1) ij by (simp add: new_values_def Let_def)
      with law show "\<forall>p\<in>set (out_msgs ?b). damped A (num_one A) p (py_neg A sigma) = p"
        by simp
    qed
    from IJ_branch_same[OF b this] ij show ?thesis
      by (simp add: Factor_message_def Let_def)
  next
    case jf
    have "\<forall>i j eta t m. first_neighbor ?s1 ?b = Inr (i, j) \<and>
           collect (\<lambda>k. entry A ?s1 ?b d 1 k (int k) j) [0..<?L] = Some eta \<and>
           t < ?L \<and> max_list A (del_at t eta) = Some m \<longrightarrow>
           (\<forall>p\<in>set (out_msgs ?b). damped A (num_one A) p (py_neg A m) = p)"
    proof (intro allI impI)
      fix i j eta t m
      assume h: "first_neighbor ?s1 ?b = Inr (i, j) \<and>
           collect (\<lambda>k. entry A ?s1 ?b d 1 k (int k) j) [0..<?L] = Some eta \<and>
           t < ?L \<and> max_list A (del_at t eta) = Some m"
      then have nv: "new_values A s self =
          concat (map (\<lambda>t. case max_list A (del_at t eta) of None \<Rightarrow> []
                            | Some m \<Rightarrow> [py_neg A m]) [0..<?L])"
        using assms(1) jf by (simp add: new_values_def Let_def)
      have "py_neg A m \<in> set (new_values A s self)"
        unfolding nv using h by (auto intro!: bexI[of _ t])
      with law show "\<forall>p\<in>set (out_msgs ?b). damped A (num_one A) p (py_neg A m) = p"
        by blast
    qed
    from JF_branch_same[OF b this] jf show ?thesis
      by (simp add: Factor_message_def Let_def)
  next
    case ic
    have "\<forall>i j dis_eta. first_neighbor ?s1 ?b = Inr (i, j) \<and>
           collect (\<lambda>k. entry A ?s1 ?b d 2 k i (int k)) [0..<?L] = Some dis_eta
           \<longrightarrow> (\<forall>p\<in>set (out_msgs ?b).
                  damped A (num_one A) p (alpha_of A r (np_array A dis_eta)) = p)"
    proof (intro allI impI)
      fix i j dis_eta
      assume h: "first_neighbor ?s1 ?b = Inr (i, j) \<and>
           collect (\<lambda>k. entry A ?s1 ?b d 2 k i (int k)) [0..<?L] = Some dis_eta"
      then have "new_values A s self = [alpha_of A r (np_array A dis_eta)]"
        using assms(1) ic by (simp add: new_values_def Let_def)
      with law show "\<forall>p\<in>set (out_msgs ?b).
                  damped A (num_one A) p (alpha_of A r (np_array A dis_eta)) = p"
        by simp
    qed
    from IC_branch_same[OF b this] ic show ?thesis
      by (simp add: Factor_message_def Let_def)
  qed
qed

text \<open>
  C5, as the code has it. For a node of any class and any role whose damping is 1, and
  such that damp * p + (1 - damp) * x is p again for every old message p of the node and
  every undamped value x the call computes, the \<open>out_msgs\<close> held after \<open>message\<close>
  (whether it returned or raised) equals the \<open>prev_out_msgs\<close> snapshot, which is the
  \<open>out_msgs\<close> held before the call. In binary64 the condition holds for every finite
  x; it fails for an infinite or nan x, since (1 - 1) * x is then nan.
\<close>

theorem damp_one_keeps_out_msgs:
  assumes "damp (s self) = num_one A"
    and "\<forall>p\<in>set (out_msgs (s self)). \<forall>x\<in>set (new_values A s self).
           damped A (num_one A) p x = p"
  shows "out_msgs (state_of (message A s self) self) =
           prev_out_msgs (state_of (message A s self) self) \<and>
         out_msgs (state_of (message A s self) self) = out_msgs (s self)"
proof -
  have "state_of (message A s self) = s(self := snapshot (s self))"
  proof (cases "kind (s self)")
    case (Variable i j)
    then have "new_values A s self =
        map (\<lambda>i. np_sum A (del_at i (in_msgs (s self)))) [0..<length (in_msgs (s self))]"
      by (simp add: new_values_def Let_def)
    with assms have "state_of (Variable_message A (s self)) = snapshot (s self)"
      by (intro Variable_message_same) simp_all
    with Variable show ?thesis by (simp add: message_def state_of_put)
  next
    case (Factor d r)
    from Factor_message_same[OF Factor assms] Factor show ?thesis
      by (simp add: message_def state_of_put)
  qed
  then show ?thesis by simp
qed

theorem damp_one_keeps_out_msgs_witness:
  "damp (example_store (example_factor ''JF'' (Fin 1) [1, 2] [Fin 7, Fin 9]) 0) = num_one exact \<and>
   new_values exact (example_store (example_factor ''JF'' (Fin 1) [1, 2] [Fin 7, Fin 9])) 0
     = [Fin (- 3), Fin (- 2)] \<and>
   out_msgs (state_of (message exact
      (example_store (example_factor ''JF'' (Fin 1) [1, 2] [Fin 7, Fin 9])) 0) 0)
     = [Fin 7, Fin 9] \<and>
   prev_out_msgs (state_of (message exact
      (example_store (example_factor ''JF'' (Fin 1) [1, 2] [Fin 7, Fin 9])) 0) 0)
     = [Fin 7, Fin 9] \<and>
   \<not> is_raised (message exact
      (example_store (example_factor ''JF'' (Fin 1) [1, 2] [Fin 7, Fin 9])) 0)"
proof -
  let ?s = "example_store (example_factor ''JF'' (Fin 1) [1, 2] [Fin 7, Fin 9])"
  have h: "damp (?s 0) = num_one exact"
    by (simp add: example_store_def example_factor_def exact_def)
  have o: "out_msgs (?s 0) = [Fin 7, Fin 9]" by (simp add: example_store_def example_factor_def)
  have nv: "new_values exact ?s 0 = [Fin (- 3), Fin (- 2)]" by code_simp
  have one: "num_one exact = Fin 1" by (simp add: exact_def)
  have law: "\<forall>p\<in>set (out_msgs (?s 0)). \<forall>x\<in>set (new_values exact ?s 0).
               damped exact (num_one exact) p x = p"
    unfolding nv one by (simp add: exact_damp_one_finite)
  have r: "\<not> is_raised (message exact ?s 0)" by code_simp
  note c = damp_one_keeps_out_msgs[where s = ?s and self = 0 and A = exact, OF h law]
  have c1: "out_msgs (state_of (message exact ?s 0) 0) = [Fin 7, Fin 9]"
    using c o by (elim conjE) (rule trans)
  have c2: "prev_out_msgs (state_of (message exact ?s 0) 0) = [Fin 7, Fin 9]"
    using c c1 by (elim conjE) (rule trans[OF sym])
  from h nv c1 c2 r show ?thesis by blast
qed

text \<open>
  The claim C5 as the specification states it fails: the variable below has damping 1,
  in_msgs = [inf, 0, 0] and out_msgs = [4, 5, 6]. For the second and third edge the
  leave-one-out sum is inf, (1 - 1) * inf is nan, and so is the new message: out_msgs ends
  as [4, nan, nan], prev_out_msgs as [4, 5, 6].
\<close>

theorem damp_one_infinite_sum:
  "damp (((example_store lone)
      (1 := example_variable 1 (Fin 1) 0 0 [PInf, Fin 0, Fin 0] [Fin 4, Fin 5, Fin 6])) 1)
     = num_one exact \<and>
   \<not> is_raised (message exact ((example_store lone)
      (1 := example_variable 1 (Fin 1) 0 0 [PInf, Fin 0, Fin 0] [Fin 4, Fin 5, Fin 6])) 1) \<and>
   out_msgs (state_of (message exact ((example_store lone)
      (1 := example_variable 1 (Fin 1) 0 0 [PInf, Fin 0, Fin 0] [Fin 4, Fin 5, Fin 6])) 1) 1)
     = [Fin 4, NaN, NaN] \<and>
   prev_out_msgs (state_of (message exact ((example_store lone)
      (1 := example_variable 1 (Fin 1) 0 0 [PInf, Fin 0, Fin 0] [Fin 4, Fin 5, Fin 6])) 1) 1)
     = [Fin 4, Fin 5, Fin 6] \<and>
   out_msgs (state_of (message exact ((example_store lone)
      (1 := example_variable 1 (Fin 1) 0 0 [PInf, Fin 0, Fin 0] [Fin 4, Fin 5, Fin 6])) 1) 1)
     \<noteq> prev_out_msgs (state_of (message exact ((example_store lone)
      (1 := example_variable 1 (Fin 1) 0 0 [PInf, Fin 0, Fin 0] [Fin 4, Fin 5, Fin 6])) 1) 1)"
proof -
  let ?s = "(example_store lone)
      (1 := example_variable 1 (Fin 1) 0 0 [PInf, Fin 0, Fin 0] [Fin 4, Fin 5, Fin 6])"
  have a: "damp (?s 1) = num_one exact" by (simp add: example_variable_def exact_def)
  have b: "\<not> is_raised (message exact ?s 1)" by code_simp
  have c: "out_msgs (state_of (message exact ?s 1) 1) = [Fin 4, NaN, NaN]" by code_simp
  have d: "prev_out_msgs (state_of (message exact ?s 1) 1) = [Fin 4, Fin 5, Fin 6]" by code_simp
  have e: "out_msgs (state_of (message exact ?s 1) 1) \<noteq>
           prev_out_msgs (state_of (message exact ?s 1) 1)"
    by (subst c, subst d) simp
  from a b c d e show ?thesis by blast
qed

end
